theory Spec2Isabelle
  imports Main "HOL-Library.Multiset"
begin

section \<open>Data model\<close>

text \<open>
  The messages of the Kafka API that the reconciler handles. A remote topic is a
  \<^verbatim>\<open>kafka.Topic\<close>, a declared topic a \<^verbatim>\<open>kafka.TopicSpec\<close>; the versioned configuration
  bag of either is kept as a list of settings.
\<close>

record Topic =
  Topic_Name :: string
  Topic_ClusterId :: string
  Topic_Partitions :: int
  Topic_ReplicationFactor :: int
  Topic_TopicConfig :: "(string \<times> string) list"

record TopicSpec =
  TopicSpec_Name :: string
  TopicSpec_Partitions :: int
  TopicSpec_ReplicationFactor :: int
  TopicSpec_TopicConfig :: "(string \<times> string) list"

section \<open>sortKafkaTopics\<close>

text \<open>
  The inner loop of \<^verbatim>\<open>sortKafkaTopics\<close>:
  \<^verbatim>\<open>for j := i + 1; j < len(topics); j++ { if spec.Name == topics[j].Name { swap i j; break } }\<close>.
  It is entered at \<open>j = i + 1\<close>, so both indices of the swap are in range.
\<close>

function sortKafkaTopics_inner :: "Topic list \<Rightarrow> string \<Rightarrow> nat \<Rightarrow> nat \<Rightarrow> Topic list" where
  "sortKafkaTopics_inner topics specName i j =
     (if j < length topics
      then (if specName = Topic_Name (topics ! j)
            then topics[i := topics ! j, j := topics ! i]
            else sortKafkaTopics_inner topics specName i (Suc j))
      else topics)"
  by pat_completeness auto
termination
  by (relation "measure (\<lambda>(topics, specName, i, j). length topics - j)") auto

declare sortKafkaTopics_inner.simps [simp del]

text \<open>The outer loop \<^verbatim>\<open>for i, spec := range specs\<close>, with the index carried along.\<close>

fun sortKafkaTopics_outer :: "Topic list \<Rightarrow> TopicSpec list \<Rightarrow> nat \<Rightarrow> Topic list" where
  "sortKafkaTopics_outer topics [] i = topics"
| "sortKafkaTopics_outer topics (spec # specs) i =
     sortKafkaTopics_outer (sortKafkaTopics_inner topics (TopicSpec_Name spec) i (Suc i)) specs (Suc i)"

definition sortKafkaTopics :: "Topic list \<Rightarrow> TopicSpec list \<Rightarrow> Topic list" where
  "sortKafkaTopics topics specs = sortKafkaTopics_outer topics specs 0"

section \<open>Update-mask paths\<close>

text \<open>
  Go's \<^verbatim>\<open>strings.Replace(s, old, new, -1)\<close>: every non-overlapping occurrence of \<open>old\<close>,
  found from the left, is replaced. \<open>replaceFrom\<close> is its scan for a non-empty \<open>old\<close>.
\<close>

function replaceFrom :: "string \<Rightarrow> string \<Rightarrow> string \<Rightarrow> string" where
  "replaceFrom old new [] = []"
| "replaceFrom old new (c # cs) =
     (if old \<noteq> [] \<and> take (length old) (c # cs) = old
      then new @ replaceFrom old new (drop (length old) (c # cs))
      else c # replaceFrom old new cs)"
  by pat_completeness auto
termination
  by (relation "measure (\<lambda>(old, new, s). length s)") auto

text \<open>
  The library returns \<open>s\<close> itself when \<open>old = new\<close>, and for an empty \<open>old\<close> puts \<open>new\<close>
  before every code point and at the end (each \<open>char\<close> is taken as one code point here;
  the reconciler only replaces \<^verbatim>\<open>"."\<close> and \<^verbatim>\<open>"{version}"\<close>).
\<close>

definition strings_Replace :: "string \<Rightarrow> string \<Rightarrow> string \<Rightarrow> string" where
  "strings_Replace s old new =
     (if old = new then s
      else if old = [] then new @ concat (map (\<lambda>c. c # new) s)
      else replaceFrom old new s)"

text \<open>\<^verbatim>\<open>strings.Contains\<close>, used to say that a path holds the placeholder.\<close>

fun strings_Contains :: "string \<Rightarrow> string \<Rightarrow> bool" where
  "strings_Contains [] substr = (substr = [])"
| "strings_Contains (c # cs) substr =
     (take (length substr) (c # cs) = substr \<or> strings_Contains cs substr)"

text \<open>
  \<^verbatim>\<open>getSuffixVerion\<close> reads \<^verbatim>\<open>config.0.version\<close> from the resource data; the version
  string is its argument here.
\<close>

definition getSuffixVerion :: "string \<Rightarrow> string" where
  "getSuffixVerion version = strings_Replace version ''.'' ''_''"

text \<open>
  The two static tables, in the order of the source. Go ranges over a map in no fixed
  order, so every function that walks a table takes the order of the walk as an argument.
\<close>

definition mdbKafkaUpdateFieldsMap :: "(string \<times> string) list" where
  "mdbKafkaUpdateFieldsMap =
   [(''name'', ''name''),
    (''description'', ''description''),
    (''labels'', ''labels''),
    (''security_group_ids'', ''security_group_ids''),
    (''config.0.zones'', ''config_spec.zone_id''),
    (''config.0.brokers_count'', ''config_spec.brokers_count''),
    (''config.0.kafka.0.resources.0.resource_preset_id'', ''config_spec.kafka.resources.resource_preset_id''),
    (''config.0.kafka.0.resources.0.disk_type_id'', ''config_spec.kafka.resources.disk_type_id''),
    (''config.0.kafka.0.resources.0.disk_size'', ''config_spec.kafka.resources.disk_size''),
    (''config.0.kafka.0.kafka_config.0.compression_type'', ''config_spec.kafka.kafka_config_{version}.compression_type''),
    (''config.0.kafka.0.kafka_config.0.log_flush_interval_messages'', ''config_spec.kafka.kafka_config_{version}.log_flush_interval_messages''),
    (''config.0.kafka.0.kafka_config.0.log_flush_interval_ms'', ''config_spec.kafka.kafka_config_{version}.log_flush_interval_ms''),
    (''config.0.kafka.0.kafka_config.0.log_flush_scheduler_interval_ms'', ''config_spec.kafka.kafka_config_{version}.log_flush_scheduler_interval_ms''),
    (''config.0.kafka.0.kafka_config.0.log_retention_bytes'', ''config_spec.kafka.kafka_config_{version}.log_retention_bytes''),
    (''config.0.kafka.0.kafka_config.0.log_retention_hours'', ''config_spec.kafka.kafka_config_{version}.log_retention_hours''),
    (''config.0.kafka.0.kafka_config.0.log_retention_minutes'', ''config_spec.kafka.kafka_config_{version}.log_retention_minutes''),
    (''config.0.kafka.0.kafka_config.0.log_retention_ms'', ''config_spec.kafka.kafka_config_{version}.log_retention_ms''),
    (''config.0.kafka.0.kafka_config.0.log_segment_bytes'', ''config_spec.kafka.kafka_config_{version}.log_segment_bytes''),
    (''config.0.kafka.0.kafka_config.0.log_preallocate'', ''config_spec.kafka.kafka_config_{version}.log_preallocate''),
    (''config.0.zookeeper.0.resources.0.resource_preset_id'', ''config_spec.zookeeper.resources.resource_preset_id''),
    (''config.0.zookeeper.0.resources.0.disk_type_id'', ''config_spec.zookeeper.resources.disk_type_id''),
    (''config.0.zookeeper.0.resources.0.disk_size'', ''config_spec.zookeeper.resources.disk_size'')]"

definition mdbKafkaUpdateTopicFieldsMap :: "(string \<times> string) list" where
  "mdbKafkaUpdateTopicFieldsMap =
   [(''topic.%d.name'', ''topic_spec.name''),
    (''topic.%d.partitions'', ''topic_spec.partitions''),
    (''topic.%d.replication_factor'', ''topic_spec.replication_factor''),
    (''topic.%d.topic_config.0.cleanup_policy'', ''topic_spec.topic_config_{version}.cleanup_policy''),
    (''topic.%d.topic_config.0.compression_type'', ''topic_spec.topic_config_{version}.compression_type''),
    (''topic.%d.topic_config.0.delete_retention_ms'', ''topic_spec.topic_config_{version}.delete_retention_ms''),
    (''topic.%d.topic_config.0.file_delete_delay_ms'', ''topic_spec.topic_config_{version}.file_delete_delay_ms''),
    (''topic.%d.topic_config.0.flush_messages'', ''topic_spec.topic_config_{version}.flush_messages''),
    (''topic.%d.topic_config.0.flush_ms'', ''topic_spec.topic_config_{version}.flush_ms''),
    (''topic.%d.topic_config.0.min_compaction_lag_ms'', ''topic_spec.topic_config_{version}.min_compaction_lag_ms''),
    (''topic.%d.topic_config.0.retention_bytes'', ''topic_spec.topic_config_{version}.retention_bytes''),
    (''topic.%d.topic_config.0.retention_ms'', ''topic_spec.topic_config_{version}.retention_ms''),
    (''topic.%d.topic_config.0.max_message_bytes'', ''topic_spec.topic_config_{version}.max_message_bytes''),
    (''topic.%d.topic_config.0.min_insync_replicas'', ''topic_spec.topic_config_{version}.min_insync_replicas''),
    (''topic.%d.topic_config.0.segment_bytes'', ''topic_spec.topic_config_{version}.segment_bytes''),
    (''topic.%d.topic_config.0.preallocate'', ''topic_spec.topic_config_{version}.preallocate'')]"

section \<open>Errors, remote operations and the resource data\<close>

text \<open>
  An error is either a status error of the SDK (gRPC code and message; code 5 is
  \<^verbatim>\<open>codes.NotFound\<close>) or the result of \<^verbatim>\<open>fmt.Errorf\<close>: the format, the printed arguments
  other than the error, and the error printed by the last \<^verbatim>\<open>%s\<close>.
\<close>

datatype error =
    Status nat string
  | Errorf string "string list" "error option"

definition isStatusNotFound :: "error \<Rightarrow> bool" where
  "isStatusNotFound err = (case err of Status code msg \<Rightarrow> code = 5 | Errorf f args e \<Rightarrow> False)"

text \<open>The messages \<^verbatim>\<open>kafka.Permission\<close>, \<^verbatim>\<open>kafka.UserSpec\<close>, the pair \<^verbatim>\<open>IndexedTopicSpec\<close> and the update requests.\<close>

record Permission =
  Permission_TopicName :: string
  Permission_Role :: string

record UserSpec =
  UserSpec_Name :: string
  UserSpec_Password :: string
  UserSpec_Permissions :: "Permission list"

record IndexedTopicSpec =
  index :: int
  topic :: TopicSpec

record UpdateClusterRequest =
  UpdateCluster_ClusterId :: string
  UpdateCluster_Name :: string
  UpdateCluster_Description :: string
  UpdateCluster_Labels :: "(string \<times> string) list"
  UpdateCluster_ConfigSpec :: "(string \<times> string) list"
  UpdateCluster_SecurityGroupIds :: "string list"
  UpdateCluster_UpdateMask :: "string list"

record UpdateTopicRequest =
  UpdateTopic_ClusterId :: string
  UpdateTopic_TopicName :: string
  UpdateTopic_TopicSpec :: TopicSpec
  UpdateTopic_UpdateMask :: "string list"

record UpdateUserRequest =
  UpdateUser_ClusterId :: string
  UpdateUser_UserName :: string
  UpdateUser_Password :: string
  UpdateUser_Permissions :: "Permission list"
  UpdateUser_UpdateMask :: "string list"

record UpdateAddressRequest =
  UpdateAddress_AddressId :: string
  UpdateAddress_Name :: string
  UpdateAddress_Description :: string
  UpdateAddress_Labels :: "(string \<times> string) list"
  UpdateAddress_UpdateMask :: "string list"

text \<open>
  The long-running operations of the remote API that the reconcilers start. The trace
  records, in order, each request sent through \<^verbatim>\<open>WrapOperation\<close> (\<open>Issue\<close>) and each return
  of \<^verbatim>\<open>op.Wait\<close> (\<open>Await\<close>). What the remote side answers is an argument of the model: it
  may depend on the request and on everything that happened before.
\<close>

datatype call =
    ClusterUpdate UpdateClusterRequest
  | TopicDelete string string
  | TopicCreate string TopicSpec
  | TopicUpdate UpdateTopicRequest
  | UserDelete string string
  | UserCreate string UserSpec
  | UserUpdate UpdateUserRequest
  | AddressUpdate UpdateAddressRequest

datatype event = Issue call | Await call

datatype outcome = RequestFails error | WaitFails error | Completes

type_synonym sdk = "event list \<Rightarrow> call \<Rightarrow> outcome"

text \<open>
  The part of \<^verbatim>\<open>schema.ResourceData\<close> that the update and read paths use: the identity, the
  change query, the declared values they read (\<open>d_labels\<close> and \<open>d_configSpec\<close> are
  the results of \<^verbatim>\<open>expandLabels\<close> and \<^verbatim>\<open>expandKafkaConfigSpec\<close>, which are not among the
  sources), the partial mode, the keys passed to \<^verbatim>\<open>SetPartial\<close> in call order, and the
  trace of remote operations.
\<close>

record ResourceData =
  d_Id :: string
  d_HasChange :: "string \<Rightarrow> bool"
  d_version :: string
  d_name :: string
  d_description :: string
  d_labels :: "error + (string \<times> string) list"
  d_configSpec :: "error + (string \<times> string) list"
  d_security_group_ids :: "string list"
  d_Partial :: bool
  d_SetPartial :: "string list"
  trace :: "event list"

text \<open>
  The pattern shared by every mutating call: \<^verbatim>\<open>op, err := WrapOperation(call)\<close>, return the
  wrapped error; \<^verbatim>\<open>err = op.Wait(ctx)\<close>, return the wrapped error; otherwise go on.
\<close>

definition WrapOperation_Wait ::
  "sdk \<Rightarrow> call \<Rightarrow> string \<Rightarrow> string \<Rightarrow> ResourceData \<Rightarrow> error option \<times> ResourceData" where
  "WrapOperation_Wait remote c requestFormat waitFormat d =
     (case remote (trace d) c of
        RequestFails err \<Rightarrow>
          (Some (Errorf requestFormat [d_Id d] (Some err)), d\<lparr>trace := trace d @ [Issue c]\<rparr>)
      | WaitFails err \<Rightarrow>
          (Some (Errorf waitFormat [d_Id d] (Some err)), d\<lparr>trace := trace d @ [Issue c, Await c]\<rparr>)
      | Completes \<Rightarrow> (None, d\<lparr>trace := trace d @ [Issue c, Await c]\<rparr>))"

text \<open>
  The callbacks collected in \<open>onDone\<close> are closures over the loop variable \<^verbatim>\<open>field\<close>. Before
  Go 1.22 a \<^verbatim>\<open>for\<close> loop has one variable for all iterations, so every callback reads the
  key of the last iteration; from Go 1.22 on each iteration has its own. The language
  version is fixed by \<^verbatim>\<open>go.mod\<close>, which is not among the sources, so it is an argument.
  \<open>onDone\<close> holds, per callback, the key of the iteration that appended it.
\<close>

datatype loopvar = SharedVariable | PerIteration

definition runOnDone :: "loopvar \<Rightarrow> (string \<times> string) list \<Rightarrow> string list \<Rightarrow> ResourceData \<Rightarrow> ResourceData" where
  "runOnDone sem order onDone d =
     d\<lparr>d_SetPartial := d_SetPartial d @
        (case sem of
           PerIteration \<Rightarrow> onDone
         | SharedVariable \<Rightarrow> map (\<lambda>captured. fst (last order)) onDone)\<rparr>"

section \<open>Cluster parameters\<close>

text \<open>
  \<^verbatim>\<open>updateKafkaClusterParams\<close>: build the request, walk the update-field map collecting the
  mask paths and the callbacks of the changed fields, return when the mask is empty, send
  the update, wait, and run the callbacks.
\<close>

definition kafkaClusterUpdateRequest :: "ResourceData \<Rightarrow> error + UpdateClusterRequest" where
  "kafkaClusterUpdateRequest d =
     (case d_labels d of
        Inl err \<Rightarrow> Inl (Errorf ''error expanding labels while updating Kafka cluster: %s'' [] (Some err))
      | Inr labels \<Rightarrow>
          (case d_configSpec d of
             Inl err \<Rightarrow> Inl (Errorf ''error expanding configSpec while updating Kafka cluster: %s'' [] (Some err))
           | Inr configSpec \<Rightarrow>
               Inr \<lparr>UpdateCluster_ClusterId = d_Id d,
                    UpdateCluster_Name = d_name d,
                    UpdateCluster_Description = d_description d,
                    UpdateCluster_Labels = labels,
                    UpdateCluster_ConfigSpec = configSpec,
                    UpdateCluster_SecurityGroupIds = d_security_group_ids d,
                    UpdateCluster_UpdateMask = []\<rparr>))"

fun updateKafkaClusterParams_range ::
  "ResourceData \<Rightarrow> (string \<times> string) list \<Rightarrow> string list \<times> string list \<Rightarrow> string list \<times> string list" where
  "updateKafkaClusterParams_range d [] (updatePath, onDone) = (updatePath, onDone)"
| "updateKafkaClusterParams_range d ((field, path) # rest) (updatePath, onDone) =
     (if d_HasChange d field
      then updateKafkaClusterParams_range d rest
             (updatePath @ [strings_Replace path ''{version}'' (getSuffixVerion (d_version d))],
              onDone @ [field])
      else updateKafkaClusterParams_range d rest (updatePath, onDone))"

definition updateKafkaClusterParams ::
  "loopvar \<Rightarrow> (string \<times> string) list \<Rightarrow> sdk \<Rightarrow> ResourceData \<Rightarrow> error option \<times> ResourceData" where
  "updateKafkaClusterParams sem order remote d =
     (case kafkaClusterUpdateRequest d of
        Inl err \<Rightarrow> (Some err, d)
      | Inr req \<Rightarrow>
          (case updateKafkaClusterParams_range d order ([], []) of
             (updatePath, onDone) \<Rightarrow>
               if length updatePath = 0 then (None, d)
               else
                 (case WrapOperation_Wait remote
                         (ClusterUpdate (req\<lparr>UpdateCluster_UpdateMask := updatePath\<rparr>))
                         ''error while requesting API to update Kafka Cluster %q: %s''
                         ''error while updating Kafka Cluster %q: %s'' d of
                    (Some err, d') \<Rightarrow> (Some err, d')
                  | (None, d') \<Rightarrow> (None, runOnDone sem order onDone d'))))"

section \<open>Read\<close>

text \<open>
  Modelled from the spec: \<^verbatim>\<open>handleNotFoundError\<close> is called by both Read paths and is not
  among the sources. The spec: on a remote "not found" the local identity is cleared and
  no error is raised; any other error is surfaced, wrapped with a description of the
  resource.
\<close>

definition handleNotFoundError :: "error \<Rightarrow> ResourceData \<Rightarrow> string \<Rightarrow> error option \<times> ResourceData" where
  "handleNotFoundError err d resourceName =
     (if isStatusNotFound err then (None, d\<lparr>d_Id := []\<rparr>)
      else (Some (Errorf ''%s: %s'' [resourceName] (Some err)), d))"

text \<open>\<^verbatim>\<open>fmt.Sprintf\<close> with one \<^verbatim>\<open>%q\<close> verb: the argument in double quotes (escapes left out).\<close>

definition Sprintf_q :: "string \<Rightarrow> string \<Rightarrow> string" where
  "Sprintf_q format a = strings_Replace format ''%q'' ([CHR 0x22] @ a @ [CHR 0x22])"

text \<open>
  The Read paths up to their decision on the fetch: \<open>Get\<close> is the remote fetch by
  identity, \<open>populate\<close> the rest of the function, which copies the fetched values into
  the resource data.
\<close>

definition resourceYandexMDBKafkaClusterRead ::
  "(string \<Rightarrow> error + 'cluster) \<Rightarrow> ('cluster \<Rightarrow> ResourceData \<Rightarrow> error option \<times> ResourceData)
   \<Rightarrow> ResourceData \<Rightarrow> error option \<times> ResourceData" where
  "resourceYandexMDBKafkaClusterRead Get populate d =
     (case Get (d_Id d) of
        Inl err \<Rightarrow> handleNotFoundError err d (Sprintf_q ''Cluster %q'' (d_name d))
      | Inr cluster \<Rightarrow> populate cluster d)"

definition handleAddressNotFoundError :: "error \<Rightarrow> ResourceData \<Rightarrow> string \<Rightarrow> error option \<times> ResourceData" where
  "handleAddressNotFoundError err d ident = handleNotFoundError err d (Sprintf_q ''VPC address %q'' ident)"

definition yandexVPCAddressRead ::
  "(string \<Rightarrow> error + 'address) \<Rightarrow> ('address \<Rightarrow> ResourceData \<Rightarrow> error option \<times> ResourceData)
   \<Rightarrow> ResourceData \<Rightarrow> string \<Rightarrow> error option \<times> ResourceData" where
  "yandexVPCAddressRead Get populate d ident =
     (case Get ident of
        Inl err \<Rightarrow> handleAddressNotFoundError err d ident
      | Inr address \<Rightarrow> populate address d)"

definition resourceYandexVPCAddressRead ::
  "(string \<Rightarrow> error + 'address) \<Rightarrow> ('address \<Rightarrow> ResourceData \<Rightarrow> error option \<times> ResourceData)
   \<Rightarrow> ResourceData \<Rightarrow> error option \<times> ResourceData" where
  "resourceYandexVPCAddressRead Get populate d = yandexVPCAddressRead Get populate d (d_Id d)"

section \<open>VPC address update\<close>

text \<open>
  \<^verbatim>\<open>resourceYandexVPCAddressUpdate\<close>: the request takes the labels, the name and the
  description that have changed, each with its mask path; the update is sent and awaited,
  and the resource is read again.
\<close>

definition resourceYandexVPCAddressUpdate ::
  "sdk \<Rightarrow> (string \<Rightarrow> error + 'address) \<Rightarrow> ('address \<Rightarrow> ResourceData \<Rightarrow> error option \<times> ResourceData)
   \<Rightarrow> ResourceData \<Rightarrow> error option \<times> ResourceData" where
  "resourceYandexVPCAddressUpdate remote Get populate d0 =
     (let d = d0\<lparr>d_Partial := True\<rparr>;
          req = \<lparr>UpdateAddress_AddressId = d_Id d, UpdateAddress_Name = [],
                 UpdateAddress_Description = [], UpdateAddress_Labels = [],
                 UpdateAddress_UpdateMask = []\<rparr>;
          labelled =
            (if d_HasChange d ''labels''
             then (case d_labels d of
                     Inl err \<Rightarrow> Inl err
                   | Inr labelsProp \<Rightarrow>
                       Inr (req\<lparr>UpdateAddress_Labels := labelsProp,
                                UpdateAddress_UpdateMask := UpdateAddress_UpdateMask req @ [''labels'']\<rparr>))
             else Inr req)
      in case labelled of
           Inl err \<Rightarrow> (Some err, d)
         | Inr req1 \<Rightarrow>
             (let req2 =
                    (if d_HasChange d ''name''
                     then req1\<lparr>UpdateAddress_Name := d_name d,
                               UpdateAddress_UpdateMask := UpdateAddress_UpdateMask req1 @ [''name'']\<rparr>
                     else req1);
                  req3 =
                    (if d_HasChange d ''description''
                     then req2\<lparr>UpdateAddress_Description := d_description d,
                               UpdateAddress_UpdateMask := UpdateAddress_UpdateMask req2 @ [''description'']\<rparr>
                     else req2)
              in case WrapOperation_Wait remote (AddressUpdate req3)
                        ''VPC address: while requesting API to update Address %q: %s''
                        ''VPC address: updating Address %q: %s'' d of
                   (Some err, d') \<Rightarrow> (Some err, d')
                 | (None, d') \<Rightarrow> resourceYandexVPCAddressRead Get populate (d'\<lparr>d_Partial := False\<rparr>)))"

section \<open>Topics\<close>

text \<open>\<^verbatim>\<open>fmt.Sprintf(field, index)\<close> for a key with one \<^verbatim>\<open>%d\<close> verb.\<close>

function strconv_digits :: "nat \<Rightarrow> string" where
  "strconv_digits n =
     (if n < 10 then [''0123456789'' ! n]
      else strconv_digits (n div 10) @ [''0123456789'' ! (n mod 10)])"
  by pat_completeness auto
termination
  by (relation "measure (\<lambda>n. n)") auto

declare strconv_digits.simps [simp del]

definition Sprintf_d :: "string \<Rightarrow> int \<Rightarrow> string" where
  "Sprintf_d format i =
     strings_Replace format ''%d''
       (if i < 0 then ''-'' @ strconv_digits (nat (- i)) else strconv_digits (nat i))"






fun updateKafkaTopic_range ::
  "ResourceData \<Rightarrow> int \<Rightarrow> (string \<times> string) list \<Rightarrow> string list \<times> string list
   \<Rightarrow> string list \<times> string list" where
  "updateKafkaTopic_range d idx [] (updatePath, onDone) = (updatePath, onDone)"
| "updateKafkaTopic_range d idx ((field, path) # rest) (updatePath, onDone) =
     (let fd = Sprintf_d field idx in
      if d_HasChange d fd
      then updateKafkaTopic_range d idx rest
             (updatePath @ [strings_Replace path ''{version}'' (getSuffixVerion (d_version d))],
              onDone @ [field])
      else updateKafkaTopic_range d idx rest (updatePath, onDone))"

definition updateKafkaTopic ::
  "loopvar \<Rightarrow> (string \<times> string) list \<Rightarrow> sdk \<Rightarrow> ResourceData \<Rightarrow> string \<Rightarrow> IndexedTopicSpec
   \<Rightarrow> string \<Rightarrow> error option \<times> ResourceData" where
  "updateKafkaTopic sem order remote d topicName topicSpec version =
     (case updateKafkaTopic_range d (index topicSpec) order ([], []) of
        (updatePath, onDone) \<Rightarrow>
          if length updatePath = 0 then (None, d)
          else
            (case WrapOperation_Wait remote
                    (TopicUpdate \<lparr>UpdateTopic_ClusterId = d_Id d,
                                   UpdateTopic_TopicName = topicName,
                                   UpdateTopic_TopicSpec = topic topicSpec,
                                   UpdateTopic_UpdateMask = updatePath\<rparr>)
                    ''error while requesting API to update topic in Kafka Cluster %q: %s''
                    ''error while updating topic in Kafka Cluster %q: %s'' d of
               (Some err, d') \<Rightarrow> (Some err, d')
             | (None, d') \<Rightarrow> (None, runOnDone sem order onDone d')))"






section \<open>Users\<close>

record User =
  User_Name :: string
  User_ClusterId :: string
  User_Permissions :: "Permission list"

partial_function (option) listKafkaUsers_pages ::
  "(string \<Rightarrow> error + (User list \<times> string)) \<Rightarrow> string \<Rightarrow> User list \<Rightarrow> string
   \<Rightarrow> (error + User list) option" where
  "listKafkaUsers_pages page ident ret pageToken =
     (case page pageToken of
        Inl err \<Rightarrow>
          Some (Inl (Errorf ''error while getting list of users for '%s': %s'' [ident] (Some err)))
      | Inr (users, nextPageToken) \<Rightarrow>
          if nextPageToken = [] then Some (Inr (ret @ users))
          else listKafkaUsers_pages page ident (ret @ users) nextPageToken)"

definition listKafkaUsers ::
  "(string \<Rightarrow> error + (User list \<times> string)) \<Rightarrow> string \<Rightarrow> (error + User list) option" where
  "listKafkaUsers page ident = listKafkaUsers_pages page ident [] []"

definition deleteKafkaUser :: "sdk \<Rightarrow> ResourceData \<Rightarrow> string \<Rightarrow> error option \<times> ResourceData" where
  "deleteKafkaUser remote d userName =
     WrapOperation_Wait remote (UserDelete (d_Id d) userName)
       ''error while requesting API to delete user from Kafka Cluster %q: %s''
       ''error while deleting user from Kafka Cluster %q: %s'' d"

definition createKafkaUser :: "sdk \<Rightarrow> ResourceData \<Rightarrow> UserSpec \<Rightarrow> error option \<times> ResourceData" where
  "createKafkaUser remote d userSpec =
     WrapOperation_Wait remote (UserCreate (d_Id d) userSpec)
       ''error while requesting API to create user in Kafka Cluster %q: %s''
       ''error while adding user to Kafka Cluster %q: %s'' d"

definition updateKafkaUser :: "sdk \<Rightarrow> ResourceData \<Rightarrow> UpdateUserRequest \<Rightarrow> error option \<times> ResourceData" where
  "updateKafkaUser remote d req =
     WrapOperation_Wait remote (UserUpdate req)
       ''error while requesting API to update user in Kafka Cluster %q: %s''
       ''error while updating user in Kafka Cluster %q: %s'' d"

fun updateKafkaUsers_old ::
  "('raw \<Rightarrow> error + UserSpec) \<Rightarrow> 'raw list \<Rightarrow> (string \<rightharpoonup> UserSpec) \<Rightarrow> error + (string \<rightharpoonup> UserSpec)" where
  "updateKafkaUsers_old expandKafkaUser [] m = Inr m"
| "updateKafkaUsers_old expandKafkaUser (spec # oldSpecs) m =
     (case expandKafkaUser spec of
        Inl err \<Rightarrow> Inl err
      | Inr user \<Rightarrow> updateKafkaUsers_old expandKafkaUser oldSpecs (m(UserSpec_Name user \<mapsto> user)))"

text \<open>
  \<^verbatim>\<open>fmt.Sprintf("%v", s)\<close> for a slice \<open>s\<close>, as Go's \<^verbatim>\<open>fmt\<close> prints it: an opening bracket, the
  elements in slice order with one space between two of them, a closing bracket. An
  element that has a \<^verbatim>\<open>String\<close> method is printed by it; the elements here are pointers to
  the generated message \<^verbatim>\<open>kafka.Permission\<close>, whose \<^verbatim>\<open>String\<close> method is outside the sources
  and is the argument \<open>String\<close>.
\<close>

fun fmt_elements :: "string list \<Rightarrow> string" where
  "fmt_elements [] = []"
| "fmt_elements [s] = s"
| "fmt_elements (s # t # ts) = s @ '' '' @ fmt_elements (t # ts)"

definition fmt_Sprintf_v :: "(Permission \<Rightarrow> string) \<Rightarrow> Permission list \<Rightarrow> string" where
  "fmt_Sprintf_v String ps = ''['' @ fmt_elements (map String ps) @ '']''"

text \<open>\<^verbatim>\<open>strings.HasPrefix\<close>, to say that one printed element begins with another.\<close>

definition strings_HasPrefix :: "string \<Rightarrow> string \<Rightarrow> bool" where
  "strings_HasPrefix s pre = (take (length pre) s = pre)"

text \<open>
  The update mask for a declared user and the old user of the same name. The permission
  lists are compared through \<^verbatim>\<open>fmt.Sprintf("%v", _)\<close>, which is an argument.
\<close>

definition updateKafkaUsers_paths :: "(Permission list \<Rightarrow> string) \<Rightarrow> UserSpec \<Rightarrow> UserSpec \<Rightarrow> string list" where
  "updateKafkaUsers_paths Sprintf_v user u =
     (if UserSpec_Password user \<noteq> UserSpec_Password u then [''password''] else [])
     @ (if Sprintf_v (UserSpec_Permissions user) \<noteq> Sprintf_v (UserSpec_Permissions u)
        then [''permissions''] else [])"

fun updateKafkaUsers_new ::
  "sdk \<Rightarrow> (Permission list \<Rightarrow> string) \<Rightarrow> ('raw \<Rightarrow> error + UserSpec) \<Rightarrow> (string \<rightharpoonup> UserSpec)
   \<Rightarrow> 'raw list \<Rightarrow> ResourceData \<Rightarrow> error option \<times> ResourceData" where
  "updateKafkaUsers_new remote Sprintf_v expandKafkaUser m [] d = (None, d)"
| "updateKafkaUsers_new remote Sprintf_v expandKafkaUser m (spec # newSpecs) d =
     (case expandKafkaUser spec of
        Inl err \<Rightarrow> (Some err, d)
      | Inr user \<Rightarrow>
          (case m (UserSpec_Name user) of
             None \<Rightarrow> updateKafkaUsers_new remote Sprintf_v expandKafkaUser m newSpecs d
           | Some u \<Rightarrow>
               (let updatePaths = updateKafkaUsers_paths Sprintf_v user u in
                if length updatePaths > 0
                then (case updateKafkaUser remote d
                             \<lparr>UpdateUser_ClusterId = d_Id d,
                              UpdateUser_UserName = UserSpec_Name user,
                              UpdateUser_Password = UserSpec_Password user,
                              UpdateUser_Permissions = UserSpec_Permissions user,
                              UpdateUser_UpdateMask = updatePaths\<rparr> of
                        (Some err, d') \<Rightarrow> (Some err, d')
                      | (None, d') \<Rightarrow>
                          updateKafkaUsers_new remote Sprintf_v expandKafkaUser m newSpecs d')
                else updateKafkaUsers_new remote Sprintf_v expandKafkaUser m newSpecs d)))"

definition updateKafkaUsers ::
  "sdk \<Rightarrow> (Permission list \<Rightarrow> string) \<Rightarrow> ('raw \<Rightarrow> error + UserSpec) \<Rightarrow> ResourceData
   \<Rightarrow> 'raw list \<Rightarrow> 'raw list \<Rightarrow> error option \<times> ResourceData" where
  "updateKafkaUsers remote Sprintf_v expandKafkaUser d oldSpecs newSpecs =
     (case updateKafkaUsers_old expandKafkaUser oldSpecs Map.empty of
        Inl err \<Rightarrow> (Some err, d)
      | Inr m \<Rightarrow> updateKafkaUsers_new remote Sprintf_v expandKafkaUser m newSpecs d)"

text \<open>
  What \<^verbatim>\<open>updateKafkaClusterUsers\<close> takes from outside the sources: one page of the user
  listing, the declared users, the differ, \<^verbatim>\<open>expandKafkaUser\<close>, the printer, and the old and
  new elements of \<^verbatim>\<open>d.GetChange("user")\<close>.
\<close>

record 'raw UserHelpers =
  h_usersPage :: "string \<Rightarrow> error + (User list \<times> string)"
  h_expandKafkaUsers :: "error + UserSpec list"
  h_kafkaUsersDiff :: "User list \<Rightarrow> UserSpec list \<Rightarrow> string list \<times> UserSpec list"
  h_expandKafkaUser :: "'raw \<Rightarrow> error + UserSpec"
  h_Sprintf_v :: "Permission list \<Rightarrow> string"
  h_GetChange_user :: "'raw list \<times> 'raw list"

fun updateKafkaClusterUsers_delete ::
  "sdk \<Rightarrow> string list \<Rightarrow> ResourceData \<Rightarrow> error option \<times> ResourceData" where
  "updateKafkaClusterUsers_delete remote [] d = (None, d)"
| "updateKafkaClusterUsers_delete remote (user # toDelete) d =
     (case deleteKafkaUser remote d user of
        (Some err, d') \<Rightarrow> (Some err, d')
      | (None, d') \<Rightarrow> updateKafkaClusterUsers_delete remote toDelete d')"

fun updateKafkaClusterUsers_add ::
  "sdk \<Rightarrow> UserSpec list \<Rightarrow> ResourceData \<Rightarrow> error option \<times> ResourceData" where
  "updateKafkaClusterUsers_add remote [] d = (None, d)"
| "updateKafkaClusterUsers_add remote (user # toAdd) d =
     (case createKafkaUser remote d user of
        (Some err, d') \<Rightarrow> (Some err, d')
      | (None, d') \<Rightarrow> updateKafkaClusterUsers_add remote toAdd d')"

definition updateKafkaClusterUsers_listed ::
  "sdk \<Rightarrow> 'raw UserHelpers \<Rightarrow> User list \<Rightarrow> ResourceData \<Rightarrow> error option \<times> ResourceData" where
  "updateKafkaClusterUsers_listed remote h currUsers d =
     (case h_expandKafkaUsers h of
        Inl err \<Rightarrow> (Some err, d)
      | Inr targetUsers \<Rightarrow>
          (case h_kafkaUsersDiff h currUsers targetUsers of
             (toDelete, toAdd) \<Rightarrow>
               (case updateKafkaClusterUsers_delete remote toDelete d of
                  (Some err, d1) \<Rightarrow> (Some err, d1)
                | (None, d1) \<Rightarrow>
                    (case updateKafkaClusterUsers_add remote toAdd d1 of
                       (Some err, d2) \<Rightarrow> (Some err, d2)
                     | (None, d2) \<Rightarrow>
                         (case updateKafkaUsers remote (h_Sprintf_v h) (h_expandKafkaUser h) d2
                                 (fst (h_GetChange_user h)) (snd (h_GetChange_user h)) of
                            (Some err, d3) \<Rightarrow> (Some err, d3)
                          | (None, d3) \<Rightarrow>
                              (None, d3\<lparr>d_SetPartial := d_SetPartial d3 @ [''user'']\<rparr>))))))"

definition updateKafkaClusterUsers ::
  "sdk \<Rightarrow> 'raw UserHelpers \<Rightarrow> ResourceData \<Rightarrow> (error option \<times> ResourceData) option" where
  "updateKafkaClusterUsers remote h d =
     (case listKafkaUsers (h_usersPage h) (d_Id d) of
        None \<Rightarrow> None
      | Some (Inl err) \<Rightarrow> Some (Some err, d)
      | Some (Inr currUsers) \<Rightarrow> Some (updateKafkaClusterUsers_listed remote h currUsers d))"

section \<open>The topic differ\<close>

text \<open>
  Modelled from the spec: \<^verbatim>\<open>kafkaTopicsDiff\<close>, \<^verbatim>\<open>kafkaChangedTopics\<close> and
  \<^verbatim>\<open>kafkaFilterModifiedTopics\<close> are called by \<^verbatim>\<open>updateKafkaClusterTopics\<close> and are not among the
  sources. The spec: to-delete are the remote names absent from the target, to-add the
  target entries whose name is absent from the remote list, and the modify candidates are
  the remaining names (before they are filtered by an actual change of a field).
\<close>

definition kafkaTopicsDiff :: "Topic list \<Rightarrow> TopicSpec list \<Rightarrow> string list \<times> TopicSpec list" where
  "kafkaTopicsDiff currTopics targetTopics =
     (map Topic_Name
        (filter (\<lambda>t. Topic_Name t \<notin> set (map TopicSpec_Name targetTopics)) currTopics),
      filter (\<lambda>s. TopicSpec_Name s \<notin> set (map Topic_Name currTopics)) targetTopics)"

definition kafkaTopicsModifyCandidates :: "Topic list \<Rightarrow> TopicSpec list \<Rightarrow> string list" where
  "kafkaTopicsModifyCandidates currTopics targetTopics =
     map TopicSpec_Name
       (filter (\<lambda>s. TopicSpec_Name s \<in> set (map Topic_Name currTopics)) targetTopics)"

section \<open>Notions of the statements\<close>

text \<open>
  The alignment that the reordering is meant to reach: the remote topics whose name is
  declared, read in list order, carry the declared names that exist remotely, read in the
  order of the declared list.
\<close>

definition alignedWith :: "TopicSpec list \<Rightarrow> Topic list \<Rightarrow> bool" where
  "alignedWith specs topics =
     (filter (\<lambda>n. n \<in> set (map TopicSpec_Name specs)) (map Topic_Name topics)
      = filter (\<lambda>n. n \<in> set (map Topic_Name topics)) (map TopicSpec_Name specs))"

text \<open>The requests of a trace, in the order they were sent.\<close>

fun issued :: "event list \<Rightarrow> call list" where
  "issued [] = []"
| "issued (Issue c # tr) = c # issued tr"
| "issued (Await c # tr) = issued tr"

text \<open>
  The phase of an operation: deletions 0, creations 1, updates 2. A trace is \<open>paired\<close>
  when it consists of requests each followed at once by the return of its wait, and
  \<open>sequential\<close> when it is paired except that its last request may have been refused, in
  which case nothing was awaited and nothing follows.
\<close>

fun eventCall :: "event \<Rightarrow> call" where
  "eventCall (Issue c) = c"
| "eventCall (Await c) = c"

fun phase :: "call \<Rightarrow> nat" where
  "phase (TopicDelete ident n) = 0"
| "phase (UserDelete ident n) = 0"
| "phase (TopicCreate ident s) = 1"
| "phase (UserCreate ident s) = 1"
| "phase (TopicUpdate req) = 2"
| "phase (UserUpdate req) = 2"
| "phase (ClusterUpdate req) = 2"
| "phase (AddressUpdate req) = 2"

fun paired :: "event list \<Rightarrow> bool" where
  "paired [] = True"
| "paired (Issue c # Await c' # tr) = (c = c' \<and> paired tr)"
| "paired tr = False"

fun sequential :: "event list \<Rightarrow> bool" where
  "sequential [] = True"
| "sequential [Issue c] = True"
| "sequential (Issue c # Await c' # tr) = (c = c' \<and> sequential tr)"
| "sequential tr = False"

text \<open>
  A step from \<open>d\<close> to \<open>d'\<close> with result \<open>res\<close> that only appends operations of phase
  \<open>k\<close> (\<open>phaseRun\<close>) or of phases up to \<open>k\<close> in ascending order (\<open>orderedRun\<close>), one at
  a time, all of them awaited when the step succeeds.
\<close>

definition phaseRun :: "nat \<Rightarrow> ResourceData \<Rightarrow> error option \<Rightarrow> ResourceData \<Rightarrow> bool" where
  "phaseRun k d res d' =
     (\<exists>tr. trace d' = trace d @ tr \<and> sequential tr \<and> (res = None \<longrightarrow> paired tr)
           \<and> (\<forall>e \<in> set tr. phase (eventCall e) = k))"

definition orderedRun :: "nat \<Rightarrow> ResourceData \<Rightarrow> error option \<Rightarrow> ResourceData \<Rightarrow> bool" where
  "orderedRun k d res d' =
     (\<exists>tr. trace d' = trace d @ tr \<and> sequential tr \<and> (res = None \<longrightarrow> paired tr)
           \<and> sorted (map (\<lambda>e. phase (eventCall e)) tr)
           \<and> (\<forall>e \<in> set tr. phase (eventCall e) \<le> k))"

section \<open>Sample data\<close>

text \<open>Sample messages for the concrete runs below.\<close>

definition mkTopic :: "string \<Rightarrow> Topic" where
  "mkTopic n = \<lparr>Topic_Name = n, Topic_ClusterId = ''c'', Topic_Partitions = 1,
     Topic_ReplicationFactor = 1, Topic_TopicConfig = []\<rparr>"

definition mkSpec :: "string \<Rightarrow> TopicSpec" where
  "mkSpec n = \<lparr>TopicSpec_Name = n, TopicSpec_Partitions = 1,
     TopicSpec_ReplicationFactor = 1, TopicSpec_TopicConfig = []\<rparr>"

text \<open>
  A resource with no changed field, and sample users, permissions and a sample printer of
  permission lists, for the concrete runs.
\<close>

definition sampleData :: ResourceData where
  "sampleData = \<lparr>d_Id = ''c1'', d_HasChange = (\<lambda>f. False), d_version = ''2.8'', d_name = ''k'',
     d_description = '''', d_labels = Inr [], d_configSpec = Inr [], d_security_group_ids = [],
     d_Partial = True, d_SetPartial = [], trace = []\<rparr>"

definition mkUser :: "string \<Rightarrow> string \<Rightarrow> Permission list \<Rightarrow> UserSpec" where
  "mkUser n p ps = \<lparr>UserSpec_Name = n, UserSpec_Password = p, UserSpec_Permissions = ps\<rparr>"

definition mkPermission :: "string \<Rightarrow> string \<Rightarrow> Permission" where
  "mkPermission t r = \<lparr>Permission_TopicName = t, Permission_Role = r\<rparr>"

definition samplePrinter :: "Permission list \<Rightarrow> string" where
  "samplePrinter ps =
     ''['' @ concat (map (\<lambda>p. Permission_TopicName p @ '':'' @ Permission_Role p @ '' '') ps) @ '']''"

text \<open>A sample \<^verbatim>\<open>String\<close> method of a permission, in the manner of the text format.\<close>

definition samplePermissionString :: "Permission \<Rightarrow> string" where
  "samplePermissionString p =
     ''topic_name:'' @ [CHR 0x22] @ Permission_TopicName p @ [CHR 0x22]
     @ '' role:'' @ Permission_Role p"


section \<open>sortKafkaTopics only permutes\<close>

lemma inner_mset:
  "i < j \<Longrightarrow> mset (sortKafkaTopics_inner topics n i j) = mset topics"
proof (induction topics n i j rule: sortKafkaTopics_inner.induct)
  case (1 topics specName i j)
  show ?case
  proof (cases "j < length topics")
    case False
    then show ?thesis by (simp add: sortKafkaTopics_inner.simps)
  next
    case inrange: True
    show ?thesis
    proof (cases "specName = Topic_Name (topics ! j)")
      case True
      have "mset (topics[i := topics ! j, j := topics ! i]) = mset topics"
        using inrange "1.prems" by (simp add: mset_swap)
      with True inrange show ?thesis
        by (subst sortKafkaTopics_inner.simps) simp
    next
      case False
      with inrange "1.IH" "1.prems" show ?thesis
        by (subst sortKafkaTopics_inner.simps) simp
    qed
  qed
qed

lemma outer_mset: "mset (sortKafkaTopics_outer topics specs i) = mset topics"
  by (induction specs arbitrary: topics i) (simp_all add: inner_mset)

text \<open>
  C10. Whatever the spec list, \<^verbatim>\<open>sortKafkaTopics\<close> returns a permutation of the remote topic
  list it was given: the multiset of topics is the same, so no topic is added, dropped or
  changed, and the length is the same.
\<close>

theorem sortKafkaTopics_permutes:
  "mset (sortKafkaTopics topics specs) = mset topics
   \<and> length (sortKafkaTopics topics specs) = length topics"
proof -
  have m: "mset (sortKafkaTopics topics specs) = mset topics"
    by (simp add: sortKafkaTopics_def outer_mset)
  from m have "length (sortKafkaTopics topics specs) = length topics"
    by (rule mset_eq_length)
  with m show ?thesis by simp
qed

section \<open>sortKafkaTopics and the order of the declared list\<close>

lemma inner_length: "i < j \<Longrightarrow> length (sortKafkaTopics_inner topics n i j) = length topics"
  using inner_mset [of i j topics n] by (rule mset_eq_length)

lemma inner_take: "i < j \<Longrightarrow> take i (sortKafkaTopics_inner topics n i j) = take i topics"
proof (induction topics n i j rule: sortKafkaTopics_inner.induct)
  case (1 topics specName i j)
  then show ?case
    by (subst sortKafkaTopics_inner.simps) auto
qed

lemma inner_no_match:
  "\<forall>k. j \<le> k \<and> k < length topics \<longrightarrow> Topic_Name (topics ! k) \<noteq> n
   \<Longrightarrow> sortKafkaTopics_inner topics n i j = topics"
proof (induction topics n i j rule: sortKafkaTopics_inner.induct)
  case (1 topics specName i j)
  then show ?case
    by (subst sortKafkaTopics_inner.simps) auto
qed

lemma inner_puts_name:
  "i < j \<Longrightarrow> i < length topics \<Longrightarrow>
   Topic_Name (topics ! i) = n \<or> (\<exists>k. j \<le> k \<and> k < length topics \<and> Topic_Name (topics ! k) = n)
   \<Longrightarrow> Topic_Name (sortKafkaTopics_inner topics n i j ! i) = n"
proof (induction topics n i j rule: sortKafkaTopics_inner.induct)
  case (1 topics specName i j)
  show ?case
  proof (cases "j < length topics")
    case False
    with "1.prems" show ?thesis
      by (subst sortKafkaTopics_inner.simps) auto
  next
    case inrange: True
    show ?thesis
    proof (cases "specName = Topic_Name (topics ! j)")
      case True
      with inrange "1.prems" show ?thesis
        by (subst sortKafkaTopics_inner.simps) simp
    next
      case False
      have "Topic_Name (topics ! i) = specName \<or>
            (\<exists>k. Suc j \<le> k \<and> k < length topics \<and> Topic_Name (topics ! k) = specName)"
        using "1.prems"(3) False by (metis Suc_leI le_neq_implies_less)
      with "1.IH" [OF inrange False] "1.prems" have
        "Topic_Name (sortKafkaTopics_inner topics specName i (Suc j) ! i) = specName"
        by simp
      with inrange False show ?thesis
        by (subst sortKafkaTopics_inner.simps) simp
    qed
  qed
qed

lemma inner_drop_names:
  assumes "i < j" "i < length topics"
  shows "set (map Topic_Name (drop i topics))
         = insert (Topic_Name (sortKafkaTopics_inner topics n i j ! i))
             (set (map Topic_Name (drop (Suc i) (sortKafkaTopics_inner topics n i j))))"
proof -
  let ?T = "sortKafkaTopics_inner topics n i j"
  have len: "length ?T = length topics" using assms(1) by (rule inner_length)
  have "mset (take i ?T) + mset (drop i ?T) = mset (take i topics) + mset (drop i topics)"
    using inner_mset [OF assms(1), of topics n]
    by (metis append_take_drop_id mset_append)
  then have "mset (drop i ?T) = mset (drop i topics)"
    using inner_take [OF assms(1), of topics n] by simp
  then have "set (drop i topics) = set (drop i ?T)"
    by (metis set_mset_mset)
  moreover have "drop i ?T = ?T ! i # drop (Suc i) ?T"
    using len assms(2) by (simp add: Cons_nth_drop_Suc)
  ultimately show ?thesis by simp
qed

lemma outer_length: "length (sortKafkaTopics_outer topics specs i) = length topics"
  using outer_mset [of topics specs i] by (rule mset_eq_length)

lemma outer_aligns:
  "distinct (map TopicSpec_Name specs) \<Longrightarrow>
   set (map TopicSpec_Name specs) \<subseteq> set (map Topic_Name (drop i topics)) \<Longrightarrow>
   take i (sortKafkaTopics_outer topics specs i) = take i topics
   \<and> map Topic_Name (take (length specs) (drop i (sortKafkaTopics_outer topics specs i)))
       = map TopicSpec_Name specs"
proof (induction specs arbitrary: topics i)
  case Nil
  then show ?case by simp
next
  case (Cons spec specs)
  let ?n = "TopicSpec_Name spec"
  let ?T = "sortKafkaTopics_inner topics ?n i (Suc i)"
  let ?R = "sortKafkaTopics_outer ?T specs (Suc i)"
  from Cons.prems(2) have nin: "?n \<in> set (map Topic_Name (drop i topics))" by simp
  then have ilen: "i < length topics" by (cases "i < length topics") auto
  from nin obtain k where k: "k < length topics - i" "Topic_Name (drop i topics ! k) = ?n"
    by (auto simp: in_set_conv_nth)
  have here: "Topic_Name (topics ! i) = ?n
      \<or> (\<exists>k'. Suc i \<le> k' \<and> k' < length topics \<and> Topic_Name (topics ! k') = ?n)"
  proof (cases k)
    case 0
    with k ilen show ?thesis by simp
  next
    case (Suc m)
    with k ilen have "Suc i \<le> i + k \<and> i + k < length topics \<and> Topic_Name (topics ! (i + k)) = ?n"
      by simp
    then show ?thesis by blast
  qed
  have name_i: "Topic_Name (?T ! i) = ?n"
    using inner_puts_name [OF _ ilen here] by simp
  have names: "set (map Topic_Name (drop i topics))
      = insert ?n (set (map Topic_Name (drop (Suc i) ?T)))"
    using inner_drop_names [of i "Suc i" topics ?n] ilen name_i by simp
  have sub: "set (map TopicSpec_Name specs) \<subseteq> set (map Topic_Name (drop (Suc i) ?T))"
  proof
    fix x assume x: "x \<in> set (map TopicSpec_Name specs)"
    from Cons.prems(1) have "?n \<notin> set (map TopicSpec_Name specs)" by simp
    with x have "x \<noteq> ?n" by blast
    moreover from x Cons.prems(2) have "x \<in> set (map Topic_Name (drop i topics))" by auto
    ultimately show "x \<in> set (map Topic_Name (drop (Suc i) ?T))"
      unfolding names by simp
  qed
  have dist: "distinct (map TopicSpec_Name specs)" using Cons.prems(1) by simp
  from Cons.IH [OF dist sub] have
    ih1: "take (Suc i) ?R = take (Suc i) ?T" and
    ih2: "map Topic_Name (take (length specs) (drop (Suc i) ?R)) = map TopicSpec_Name specs"
    by simp_all
  have lenT: "length ?T = length topics" by (simp add: inner_length)
  have lenR: "length ?R = length topics" by (simp add: outer_length lenT)
  have "take i ?R = take i (take (Suc i) ?R)" by simp
  also have "\<dots> = take i (take (Suc i) ?T)" by (simp only: ih1)
  also have "\<dots> = take i topics" by (simp add: inner_take)
  finally have g1: "take i ?R = take i topics" .
  have "?R ! i = take (Suc i) ?R ! i" by simp
  also have "\<dots> = ?T ! i" by (simp only: ih1) simp
  finally have Ri: "Topic_Name (?R ! i) = ?n" using name_i by simp
  have "drop i ?R = ?R ! i # drop (Suc i) ?R"
    using lenR ilen by (simp add: Cons_nth_drop_Suc)
  then have g2: "map Topic_Name (take (length (spec # specs)) (drop i ?R))
      = map TopicSpec_Name (spec # specs)"
    using Ri ih2 by simp
  from g1 g2 show ?case by simp
qed

lemma outer_append:
  "sortKafkaTopics_outer topics (ps @ qs) i
   = sortKafkaTopics_outer (sortKafkaTopics_outer topics ps i) qs (i + length ps)"
  by (induction ps arbitrary: topics i) simp_all

lemma outer_absent:
  "set (map TopicSpec_Name qs) \<inter> set (map Topic_Name topics) = {} \<Longrightarrow>
   sortKafkaTopics_outer topics qs i = topics"
proof (induction qs arbitrary: i)
  case Nil
  then show ?case by simp
next
  case (Cons q qs)
  have "\<forall>k. Suc i \<le> k \<and> k < length topics \<longrightarrow> Topic_Name (topics ! k) \<noteq> TopicSpec_Name q"
  proof (intro allI impI)
    fix k assume "Suc i \<le> k \<and> k < length topics"
    then have "Topic_Name (topics ! k) \<in> set (map Topic_Name topics)" by simp
    with Cons.prems show "Topic_Name (topics ! k) \<noteq> TopicSpec_Name q" by auto
  qed
  then have "sortKafkaTopics_inner topics (TopicSpec_Name q) i (Suc i) = topics"
    by (rule inner_no_match)
  with Cons show ?case by simp
qed

text \<open>
  C3, as stated, fails: with unique names on both sides, a declared name that is missing
  remotely still uses up its index, so the remote list \<open>[b, a]\<close> stays as it is for the
  declared list \<open>[z, a, b]\<close>.
\<close>

theorem sortKafkaTopics_unaligned_counterexample:
  "distinct (map Topic_Name [mkTopic ''b'', mkTopic ''a''])
   \<and> distinct (map TopicSpec_Name [mkSpec ''z'', mkSpec ''a'', mkSpec ''b''])
   \<and> map Topic_Name (sortKafkaTopics [mkTopic ''b'', mkTopic ''a'']
         [mkSpec ''z'', mkSpec ''a'', mkSpec ''b'']) = [''b'', ''a'']
   \<and> \<not> alignedWith [mkSpec ''z'', mkSpec ''a'', mkSpec ''b'']
         (sortKafkaTopics [mkTopic ''b'', mkTopic ''a'']
            [mkSpec ''z'', mkSpec ''a'', mkSpec ''b''])"
  by (simp add: alignedWith_def sortKafkaTopics_def mkTopic_def mkSpec_def
      sortKafkaTopics_inner.simps)

text \<open>
  C3, amended. Names are unique within each list, and the declared names that exist
  remotely (\<open>ps\<close>) come before the declared names that do not (\<open>qs\<close>); in particular
  \<open>qs\<close> may be empty, when every declared name exists remotely. Then after
  \<^verbatim>\<open>sortKafkaTopics\<close> the remote element at index \<open>i\<close> has the name of the declared
  element at index \<open>i\<close>, for every index of \<open>ps\<close>, and the remote elements with a declared
  name stand in the order of the declared list.
\<close>

theorem sortKafkaTopics_aligns:
  assumes dt: "distinct (map Topic_Name topics)"
    and ds: "distinct (map TopicSpec_Name (ps @ qs))"
    and present: "set (map TopicSpec_Name ps) \<subseteq> set (map Topic_Name topics)"
    and absent: "set (map TopicSpec_Name qs) \<inter> set (map Topic_Name topics) = {}"
  shows "map Topic_Name (take (length ps) (sortKafkaTopics topics (ps @ qs))) = map TopicSpec_Name ps
         \<and> alignedWith (ps @ qs) (sortKafkaTopics topics (ps @ qs))"
proof -
  let ?R = "sortKafkaTopics_outer topics ps 0"
  let ?names = "map Topic_Name ?R"
  let ?rest = "map Topic_Name (drop (length ps) ?R)"
  have ms: "mset ?names = mset (map Topic_Name topics)"
    by (simp add: outer_mset)
  then have same: "set ?names = set (map Topic_Name topics)"
    by (metis set_mset_mset)
  from ms dt have dR: "distinct ?names"
    by (metis mset_eq_imp_distinct_iff)
  from absent same have "set (map TopicSpec_Name qs) \<inter> set (map Topic_Name ?R) = {}"
    by simp
  then have "sortKafkaTopics_outer ?R qs (0 + length ps) = ?R"
    by (rule outer_absent)
  then have R: "sortKafkaTopics topics (ps @ qs) = ?R"
    by (simp add: sortKafkaTopics_def outer_append)
  from ds have dps: "distinct (map TopicSpec_Name ps)" by simp
  from outer_aligns [OF dps, of 0 topics] present
  have front: "map Topic_Name (take (length ps) ?R) = map TopicSpec_Name ps"
    by simp
  have split: "?names = map TopicSpec_Name ps @ ?rest"
    using front by (metis append_take_drop_id map_append)
  from dR split have disj: "set (map TopicSpec_Name ps) \<inter> set ?rest = {}"
    by (metis distinct_append)
  have "set (drop (length ps) ?R) \<subseteq> set ?R"
    by (rule set_drop_subset)
  then have "set ?rest \<subseteq> set ?names" by auto
  with absent same have restq: "set (map TopicSpec_Name qs) \<inter> set ?rest = {}"
    by blast
  have f1: "filter (\<lambda>n. n \<in> set (map TopicSpec_Name (ps @ qs))) ?rest = []"
    using disj restq by (auto simp: filter_empty_conv)
  have f2: "filter (\<lambda>n. n \<in> set (map TopicSpec_Name (ps @ qs))) (map TopicSpec_Name ps)
      = map TopicSpec_Name ps"
    by (auto simp: filter_id_conv)
  have f3: "filter (\<lambda>n. n \<in> set ?names) (map TopicSpec_Name ps) = map TopicSpec_Name ps"
    using split by (auto simp: filter_id_conv)
  have f4: "filter (\<lambda>n. n \<in> set ?names) (map TopicSpec_Name qs) = []"
    using absent same by (auto simp: filter_empty_conv)
  have "filter (\<lambda>n. n \<in> set (map TopicSpec_Name (ps @ qs))) ?names = map TopicSpec_Name ps"
    by (subst split) (simp only: filter_append f1 f2 append_Nil2)
  moreover have "filter (\<lambda>n. n \<in> set ?names) (map TopicSpec_Name (ps @ qs)) = map TopicSpec_Name ps"
    by (simp only: map_append filter_append f3 f4 append_Nil2)
  ultimately have "alignedWith (ps @ qs) ?R"
    by (simp only: alignedWith_def)
  with front R show ?thesis by simp
qed

theorem sortKafkaTopics_aligns_witness:
  "distinct (map Topic_Name [mkTopic ''b'', mkTopic ''x'', mkTopic ''a''])
   \<and> distinct (map TopicSpec_Name ([mkSpec ''a'', mkSpec ''b''] @ [mkSpec ''q'']))
   \<and> set (map TopicSpec_Name [mkSpec ''a'', mkSpec ''b''])
       \<subseteq> set (map Topic_Name [mkTopic ''b'', mkTopic ''x'', mkTopic ''a''])
   \<and> set (map TopicSpec_Name [mkSpec ''q''])
       \<inter> set (map Topic_Name [mkTopic ''b'', mkTopic ''x'', mkTopic ''a'']) = {}
   \<and> map Topic_Name (take (length [mkSpec ''a'', mkSpec ''b''])
        (sortKafkaTopics [mkTopic ''b'', mkTopic ''x'', mkTopic ''a'']
           ([mkSpec ''a'', mkSpec ''b''] @ [mkSpec ''q''])))
       = map TopicSpec_Name [mkSpec ''a'', mkSpec ''b'']
   \<and> alignedWith ([mkSpec ''a'', mkSpec ''b''] @ [mkSpec ''q''])
        (sortKafkaTopics [mkTopic ''b'', mkTopic ''x'', mkTopic ''a'']
           ([mkSpec ''a'', mkSpec ''b''] @ [mkSpec ''q'']))"
proof -
  have h1: "distinct (map Topic_Name [mkTopic ''b'', mkTopic ''x'', mkTopic ''a''])"
    by (simp add: mkTopic_def)
  have h2: "distinct (map TopicSpec_Name ([mkSpec ''a'', mkSpec ''b''] @ [mkSpec ''q'']))"
    by (simp add: mkSpec_def)
  have h3: "set (map TopicSpec_Name [mkSpec ''a'', mkSpec ''b''])
       \<subseteq> set (map Topic_Name [mkTopic ''b'', mkTopic ''x'', mkTopic ''a''])"
    by (simp add: mkSpec_def mkTopic_def)
  have h4: "set (map TopicSpec_Name [mkSpec ''q''])
       \<inter> set (map Topic_Name [mkTopic ''b'', mkTopic ''x'', mkTopic ''a'']) = {}"
    by (simp add: mkSpec_def mkTopic_def)
  from sortKafkaTopics_aligns [OF h1 h2 h3 h4] h1 h2 h3 h4 show ?thesis
    by blast
qed

section \<open>The field-path mapper\<close>

lemma replaceFrom_single:
  "replaceFrom [a] [b] s = map (\<lambda>c. if c = a then b else c) s"
  by (induction s) simp_all

lemma replaceFrom_absent:
  "\<not> strings_Contains s old \<Longrightarrow> replaceFrom old new s = s"
  by (induction s) auto

lemma replaceFrom_once:
  "old \<noteq> [] \<Longrightarrow> hd old \<notin> set pre \<Longrightarrow>
   replaceFrom old new (pre @ old @ suf) = pre @ new @ replaceFrom old new suf"
proof (induction pre)
  case Nil
  then show ?case by (cases old) simp_all
next
  case (Cons c pre)
  then have "take (length old) (c # pre @ old @ suf) \<noteq> old"
    by (cases old) auto
  with Cons show ?case by simp
qed

lemma char_absent_not_Contains:
  "substr \<noteq> [] \<Longrightarrow> hd substr \<notin> set s \<Longrightarrow> \<not> strings_Contains s substr"
  by (induction s) (auto simp: take_Suc_conv_app_nth hd_conv_nth neq_Nil_conv)

lemma getSuffixVerion_map:
  "getSuffixVerion version = map (\<lambda>c. if c = CHR ''.'' then CHR ''_'' else c) version"
  by (simp add: getSuffixVerion_def strings_Replace_def replaceFrom_single)

lemma Replace_absent:
  "\<not> strings_Contains s ''{version}'' \<Longrightarrow> strings_Replace s ''{version}'' new = s"
  by (simp add: strings_Replace_def replaceFrom_absent)

lemma Replace_once:
  assumes "CHR ''{'' \<notin> set pre" "CHR ''{'' \<notin> set suf"
  shows "strings_Replace (pre @ ''{version}'' @ suf) ''{version}'' new = pre @ new @ suf"
proof (cases "''{version}'' = new")
  case True
  then show ?thesis by (simp add: strings_Replace_def)
next
  case False
  have "\<not> strings_Contains suf ''{version}''"
    using assms(2) by (intro char_absent_not_Contains) simp_all
  then have "replaceFrom ''{version}'' new suf = suf" by (rule replaceFrom_absent)
  moreover have "replaceFrom ''{version}'' new (pre @ ''{version}'' @ suf)
      = pre @ new @ replaceFrom ''{version}'' new suf"
    using assms(1) by (intro replaceFrom_once) simp_all
  ultimately show ?thesis using False by (simp add: strings_Replace_def)
qed

lemma table_form:
  "(field, path) \<in> set mdbKafkaUpdateFieldsMap \<union> set mdbKafkaUpdateTopicFieldsMap
   \<Longrightarrow> CHR ''{'' \<notin> set path
      \<or> (\<exists>suf. dropWhile (\<lambda>c. c \<noteq> CHR ''{'') path = ''{version}'' @ suf \<and> CHR ''{'' \<notin> set suf)"
  unfolding mdbKafkaUpdateFieldsMap_def mdbKafkaUpdateTopicFieldsMap_def
  by auto

text \<open>
  C6. For every path of the update-field maps (cluster and topic) and every version
  string: the version suffix is the version with every dot turned into an underscore; a
  path without the placeholder is returned as it is; a path with the placeholder holds it
  exactly once, and the result is the path with that one occurrence replaced by the
  suffix. Any other string without the placeholder is returned unchanged as well.
\<close>

theorem fieldPathMapper:
  assumes "(field, path) \<in> set mdbKafkaUpdateFieldsMap \<union> set mdbKafkaUpdateTopicFieldsMap"
  shows "getSuffixVerion version = map (\<lambda>c. if c = CHR ''.'' then CHR ''_'' else c) version
    \<and> ((\<not> strings_Contains path ''{version}''
         \<and> strings_Replace path ''{version}'' (getSuffixVerion version) = path)
       \<or> (\<exists>pre suf. path = pre @ ''{version}'' @ suf
            \<and> \<not> strings_Contains pre ''{version}'' \<and> \<not> strings_Contains suf ''{version}''
            \<and> strings_Replace path ''{version}'' (getSuffixVerion version)
                = pre @ getSuffixVerion version @ suf))
    \<and> (\<not> strings_Contains other ''{version}''
         \<longrightarrow> strings_Replace other ''{version}'' (getSuffixVerion version) = other)"
proof -
  let ?new = "getSuffixVerion version"
  have third: "\<not> strings_Contains other ''{version}''
         \<longrightarrow> strings_Replace other ''{version}'' ?new = other"
    by (simp add: Replace_absent)
  have second: "(\<not> strings_Contains path ''{version}''
         \<and> strings_Replace path ''{version}'' ?new = path)
       \<or> (\<exists>pre suf. path = pre @ ''{version}'' @ suf
            \<and> \<not> strings_Contains pre ''{version}'' \<and> \<not> strings_Contains suf ''{version}''
            \<and> strings_Replace path ''{version}'' ?new = pre @ ?new @ suf)"
  proof (cases "CHR ''{'' \<in> set path")
    case False
    then have "\<not> strings_Contains path ''{version}''"
      by (intro char_absent_not_Contains) simp_all
    then show ?thesis by (simp add: Replace_absent)
  next
    case True
    let ?pre = "takeWhile (\<lambda>c. c \<noteq> CHR ''{'') path"
    from True table_form [OF assms] obtain suf where
      suf: "dropWhile (\<lambda>c. c \<noteq> CHR ''{'') path = ''{version}'' @ suf" "CHR ''{'' \<notin> set suf"
      by blast
    have path: "path = ?pre @ ''{version}'' @ suf"
      using suf(1) by (metis takeWhile_dropWhile_id)
    have pre: "CHR ''{'' \<notin> set ?pre"
      by (auto dest: set_takeWhileD)
    have "\<not> strings_Contains ?pre ''{version}''"
      using pre by (intro char_absent_not_Contains) simp_all
    moreover have "\<not> strings_Contains suf ''{version}''"
      using suf(2) by (intro char_absent_not_Contains) simp_all
    moreover have "strings_Replace path ''{version}'' ?new = ?pre @ ?new @ suf"
      by (subst path) (rule Replace_once [OF pre suf(2)])
    ultimately show ?thesis using path by blast
  qed
  from getSuffixVerion_map second third show ?thesis by blast
qed

theorem fieldPathMapper_witness:
  "(''config.0.kafka.0.kafka_config.0.compression_type'',
    ''config_spec.kafka.kafka_config_{version}.compression_type'') \<in> set mdbKafkaUpdateFieldsMap
   \<and> getSuffixVerion ''2.8'' = ''2_8''
   \<and> strings_Contains ''config_spec.kafka.kafka_config_{version}.compression_type'' ''{version}''
   \<and> strings_Replace ''config_spec.kafka.kafka_config_{version}.compression_type'' ''{version}''
        (getSuffixVerion ''2.8'') = ''config_spec.kafka.kafka_config_2_8.compression_type''
   \<and> \<not> strings_Contains ''config_spec.zone_id'' ''{version}''
   \<and> strings_Replace ''config_spec.zone_id'' ''{version}'' (getSuffixVerion ''2.8'')
        = ''config_spec.zone_id''"
proof -
  have m: "(''config.0.kafka.0.kafka_config.0.compression_type'',
    ''config_spec.kafka.kafka_config_{version}.compression_type'')
     \<in> set mdbKafkaUpdateFieldsMap \<union> set mdbKafkaUpdateTopicFieldsMap"
    by (simp add: mdbKafkaUpdateFieldsMap_def)
  have v: "getSuffixVerion ''2.8'' = ''2_8''"
    by (simp add: getSuffixVerion_def strings_Replace_def)
  have c: "strings_Contains ''config_spec.kafka.kafka_config_{version}.compression_type'' ''{version}''"
    by simp
  have n: "\<not> strings_Contains ''config_spec.zone_id'' ''{version}''"
    by simp
  have r: "strings_Replace ''config_spec.kafka.kafka_config_{version}.compression_type'' ''{version}''
        (getSuffixVerion ''2.8'') = ''config_spec.kafka.kafka_config_2_8.compression_type''"
    by (simp add: v strings_Replace_def)
  have z: "strings_Replace ''config_spec.zone_id'' ''{version}'' (getSuffixVerion ''2.8'')
        = ''config_spec.zone_id''"
    using fieldPathMapper [OF m, of "''2.8''" "''config_spec.zone_id''"] n by blast
  have m': "(''config.0.kafka.0.kafka_config.0.compression_type'',
    ''config_spec.kafka.kafka_config_{version}.compression_type'') \<in> set mdbKafkaUpdateFieldsMap"
    by (simp add: mdbKafkaUpdateFieldsMap_def)
  from m' v c r n z show ?thesis by blast
qed

section \<open>What the reconcilers send\<close>

lemma issued_append: "issued (tr @ tr') = issued tr @ issued tr'"
  by (induction tr rule: issued.induct) simp_all

lemma WrapOperation_Wait_issued:
  "issued (trace (snd (WrapOperation_Wait remote c f g d))) = issued (trace d) @ [c]"
  by (simp add: WrapOperation_Wait_def issued_append split: outcome.splits)

lemma WrapOperation_Wait_cases:
  "(\<exists>err. WrapOperation_Wait remote c f g d = (Some err, d\<lparr>trace := trace d @ [Issue c]\<rparr>))
   \<or> (\<exists>err. WrapOperation_Wait remote c f g d = (Some err, d\<lparr>trace := trace d @ [Issue c, Await c]\<rparr>))
   \<or> WrapOperation_Wait remote c f g d = (None, d\<lparr>trace := trace d @ [Issue c, Await c]\<rparr>)"
  by (simp add: WrapOperation_Wait_def split: outcome.splits)

lemma handleNotFoundError_trace: "trace (snd (handleNotFoundError err d n)) = trace d"
  by (simp add: handleNotFoundError_def)

text \<open>
  C7. When the fetch by identity fails with a "not found" status, Read of the Kafka
  cluster and Read of the VPC address both return no error and clear the identity of the
  resource; nothing else of the resource data changes.
\<close>

theorem Read_not_found_removes:
  assumes "isStatusNotFound err"
  shows "(GetCluster (d_Id d) = Inl err \<longrightarrow>
            resourceYandexMDBKafkaClusterRead GetCluster populateCluster d = (None, d\<lparr>d_Id := []\<rparr>))
       \<and> (GetAddress (d_Id d) = Inl err \<longrightarrow>
            resourceYandexVPCAddressRead GetAddress populateAddress d = (None, d\<lparr>d_Id := []\<rparr>))"
  using assms
  by (simp add: resourceYandexMDBKafkaClusterRead_def resourceYandexVPCAddressRead_def
      yandexVPCAddressRead_def handleAddressNotFoundError_def handleNotFoundError_def)

theorem Read_not_found_removes_witness:
  "isStatusNotFound (Status 5 ''not found'')
   \<and> resourceYandexMDBKafkaClusterRead (\<lambda>i. Inl (Status 5 ''not found'') :: error + unit)
        (\<lambda>c d. (None, d)) sampleData = (None, sampleData\<lparr>d_Id := []\<rparr>)
   \<and> resourceYandexVPCAddressRead (\<lambda>i. Inl (Status 5 ''not found'') :: error + unit)
        (\<lambda>a d. (None, d)) sampleData = (None, sampleData\<lparr>d_Id := []\<rparr>)"
proof -
  have h: "isStatusNotFound (Status 5 ''not found'')"
    by (simp add: isStatusNotFound_def)
  from Read_not_found_removes [OF h, of "\<lambda>i. Inl (Status 5 ''not found'') :: error + unit" sampleData
      "\<lambda>c d. (None, d)" "\<lambda>i. Inl (Status 5 ''not found'') :: error + unit" "\<lambda>a d. (None, d)"] h
  show ?thesis by simp
qed

lemma params_range_acc:
  "updateKafkaClusterParams_range d order (updatePath, onDone)
   = (updatePath @ map (\<lambda>(field, path). strings_Replace path ''{version}'' (getSuffixVerion (d_version d)))
                     (filter (\<lambda>(field, path). d_HasChange d field) order),
      onDone @ map fst (filter (\<lambda>(field, path). d_HasChange d field) order))"
  by (induction order arbitrary: updatePath onDone) auto

text \<open>
  C2, amended. Kafka cluster: when no field of the walk over the update-field map has
  changed, \<^verbatim>\<open>updateKafkaClusterParams\<close> sends nothing and leaves the resource data as it is.
  VPC address: the update has no such guard; when none of labels, name and description
  has changed it still sends the update request, with an empty update mask.
\<close>

theorem Update_without_changes:
  "((\<forall>(field, path) \<in> set order. \<not> d_HasChange d field) \<longrightarrow>
      trace (snd (updateKafkaClusterParams sem order remote d)) = trace d
      \<and> snd (updateKafkaClusterParams sem order remote d) = d)
   \<and> (\<not> d_HasChange d ''labels'' \<and> \<not> d_HasChange d ''name'' \<and> \<not> d_HasChange d ''description''
        \<and> (\<forall>a x. trace (snd (populate a x)) = trace x) \<longrightarrow>
      issued (trace (snd (resourceYandexVPCAddressUpdate remote Get populate d)))
      = issued (trace d) @
        [AddressUpdate \<lparr>UpdateAddress_AddressId = d_Id d, UpdateAddress_Name = [],
           UpdateAddress_Description = [], UpdateAddress_Labels = [],
           UpdateAddress_UpdateMask = []\<rparr>])"
proof (intro conjI impI)
  assume none: "\<forall>(field, path) \<in> set order. \<not> d_HasChange d field"
  then have "filter (\<lambda>(field, path). d_HasChange d field) order = []"
    by (auto simp: filter_empty_conv)
  then have "updateKafkaClusterParams_range d order ([], []) = ([], [])"
    by (simp add: params_range_acc)
  then show "snd (updateKafkaClusterParams sem order remote d) = d"
    by (simp add: updateKafkaClusterParams_def split: sum.splits)
  then show "trace (snd (updateKafkaClusterParams sem order remote d)) = trace d"
    by simp
next
  let ?req = "\<lparr>UpdateAddress_AddressId = d_Id d, UpdateAddress_Name = [],
           UpdateAddress_Description = [], UpdateAddress_Labels = [],
           UpdateAddress_UpdateMask = []\<rparr>"
  let ?d = "d\<lparr>d_Partial := True\<rparr>"
  assume h: "\<not> d_HasChange d ''labels'' \<and> \<not> d_HasChange d ''name'' \<and> \<not> d_HasChange d ''description''
        \<and> (\<forall>a x. trace (snd (populate a x)) = trace x)"
  have upd: "resourceYandexVPCAddressUpdate remote Get populate d =
      (case WrapOperation_Wait remote (AddressUpdate ?req)
                        ''VPC address: while requesting API to update Address %q: %s''
                        ''VPC address: updating Address %q: %s'' ?d of
                   (Some err, d') \<Rightarrow> (Some err, d')
                 | (None, d') \<Rightarrow> resourceYandexVPCAddressRead Get populate (d'\<lparr>d_Partial := False\<rparr>))"
    using h by (simp add: resourceYandexVPCAddressUpdate_def)
  have rd: "\<And>x. trace (snd (resourceYandexVPCAddressRead Get populate x)) = trace x"
    using h by (simp add: resourceYandexVPCAddressRead_def yandexVPCAddressRead_def
        handleAddressNotFoundError_def handleNotFoundError_trace split: sum.splits)
  from WrapOperation_Wait_cases [of remote "AddressUpdate ?req"
      "''VPC address: while requesting API to update Address %q: %s''"
      "''VPC address: updating Address %q: %s''" ?d]
  show "issued (trace (snd (resourceYandexVPCAddressUpdate remote Get populate d)))
      = issued (trace d) @ [AddressUpdate ?req]"
    unfolding upd by (auto simp: rd issued_append)
qed

theorem Update_without_changes_witness:
  "d_HasChange sampleData = (\<lambda>f. False)
   \<and> snd (updateKafkaClusterParams SharedVariable mdbKafkaUpdateFieldsMap (\<lambda>t c. Completes) sampleData) = sampleData
   \<and> issued (trace (snd (resourceYandexVPCAddressUpdate (\<lambda>t c. Completes)
          (\<lambda>i. Inr () :: error + unit) (\<lambda>a x. (None, x)) sampleData)))
       = issued (trace sampleData) @
         [AddressUpdate \<lparr>UpdateAddress_AddressId = d_Id sampleData, UpdateAddress_Name = [],
            UpdateAddress_Description = [], UpdateAddress_Labels = [],
            UpdateAddress_UpdateMask = []\<rparr>]"
proof -
  have h: "d_HasChange sampleData = (\<lambda>f. False)" by (simp add: sampleData_def)
  from Update_without_changes [of mdbKafkaUpdateFieldsMap sampleData SharedVariable "\<lambda>t c. Completes"
      "\<lambda>a x. (None, x)" "\<lambda>i. Inr () :: error + unit"] h
  show ?thesis by simp
qed

text \<open>
  C2, as stated, fails for the VPC address: with no changed field at all, the update
  sends a request.
\<close>

theorem VPC_update_without_changes_counterexample:
  "(\<forall>f. \<not> d_HasChange sampleData f)
   \<and> issued (trace (snd (resourceYandexVPCAddressUpdate (\<lambda>t c. Completes)
          (\<lambda>i. Inr () :: error + unit) (\<lambda>a x. (None, x)) sampleData))) \<noteq> issued (trace sampleData)"
  by (simp add: sampleData_def resourceYandexVPCAddressUpdate_def WrapOperation_Wait_def
      resourceYandexVPCAddressRead_def yandexVPCAddressRead_def Let_def)

lemma updateKafkaUser_issued:
  "issued (trace (snd (updateKafkaUser remote d req))) = issued (trace d) @ [UserUpdate req]"
  by (simp add: updateKafkaUser_def WrapOperation_Wait_issued)

lemma updateKafkaUsers_pair:
  assumes "expandKafkaUser old = Inr u" "expandKafkaUser new = Inr user"
    and "UserSpec_Name user = UserSpec_Name u"
    and "updateKafkaUsers_paths Sprintf_v user u \<noteq> []"
  shows "issued (trace (snd (updateKafkaUsers remote Sprintf_v expandKafkaUser d [old] [new])))
     = issued (trace d) @
       [UserUpdate \<lparr>UpdateUser_ClusterId = d_Id d,
          UpdateUser_UserName = UserSpec_Name user,
          UpdateUser_Password = UserSpec_Password user,
          UpdateUser_Permissions = UserSpec_Permissions user,
          UpdateUser_UpdateMask = updateKafkaUsers_paths Sprintf_v user u\<rparr>]"
proof -
  let ?req = "\<lparr>UpdateUser_ClusterId = d_Id d,
          UpdateUser_UserName = UserSpec_Name user,
          UpdateUser_Password = UserSpec_Password user,
          UpdateUser_Permissions = UserSpec_Permissions user,
          UpdateUser_UpdateMask = updateKafkaUsers_paths Sprintf_v user u\<rparr>"
  obtain r d' where run: "updateKafkaUser remote d ?req = (r, d')"
    by (cases "updateKafkaUser remote d ?req")
  have "updateKafkaUsers remote Sprintf_v expandKafkaUser d [old] [new] = (r, d')"
    using assms run by (cases r) (simp_all add: updateKafkaUsers_def Let_def)
  with run have "updateKafkaUsers remote Sprintf_v expandKafkaUser d [old] [new]
      = updateKafkaUser remote d ?req"
    by simp
  then show ?thesis by (simp only: updateKafkaUser_issued)
qed

text \<open>
  C4. An old and a new user of the same name that differ in the password and have the
  same permissions: the update mask is exactly \<^verbatim>\<open>password\<close>, and the reconciliation of the
  pair sends exactly one user update, with that mask.
\<close>

theorem password_only_update:
  assumes "expandKafkaUser old = Inr u" "expandKafkaUser new = Inr user"
    and "UserSpec_Name user = UserSpec_Name u"
    and "UserSpec_Password user \<noteq> UserSpec_Password u"
    and "UserSpec_Permissions user = UserSpec_Permissions u"
  shows "updateKafkaUsers_paths Sprintf_v user u = [''password'']
    \<and> issued (trace (snd (updateKafkaUsers remote Sprintf_v expandKafkaUser d [old] [new])))
        = issued (trace d) @
          [UserUpdate \<lparr>UpdateUser_ClusterId = d_Id d,
             UpdateUser_UserName = UserSpec_Name user,
             UpdateUser_Password = UserSpec_Password user,
             UpdateUser_Permissions = UserSpec_Permissions user,
             UpdateUser_UpdateMask = [''password'']\<rparr>]"
proof -
  have p: "updateKafkaUsers_paths Sprintf_v user u = [''password'']"
    using assms(4,5) by (simp add: updateKafkaUsers_paths_def)
  then have "updateKafkaUsers_paths Sprintf_v user u \<noteq> []" by simp
  with assms(1-3) have "issued (trace (snd (updateKafkaUsers remote Sprintf_v expandKafkaUser d [old] [new])))
     = issued (trace d) @
       [UserUpdate \<lparr>UpdateUser_ClusterId = d_Id d,
          UpdateUser_UserName = UserSpec_Name user,
          UpdateUser_Password = UserSpec_Password user,
          UpdateUser_Permissions = UserSpec_Permissions user,
          UpdateUser_UpdateMask = updateKafkaUsers_paths Sprintf_v user u\<rparr>]"
    by (rule updateKafkaUsers_pair)
  with p show ?thesis by simp
qed

theorem password_only_update_witness:
  "UserSpec_Name (mkUser ''alice'' ''new'' [mkPermission ''t'' ''producer''])
     = UserSpec_Name (mkUser ''alice'' ''old'' [mkPermission ''t'' ''producer''])
   \<and> UserSpec_Password (mkUser ''alice'' ''new'' [mkPermission ''t'' ''producer''])
     \<noteq> UserSpec_Password (mkUser ''alice'' ''old'' [mkPermission ''t'' ''producer''])
   \<and> issued (trace (snd (updateKafkaUsers (\<lambda>t c. Completes) samplePrinter Inr sampleData
          [mkUser ''alice'' ''old'' [mkPermission ''t'' ''producer'']]
          [mkUser ''alice'' ''new'' [mkPermission ''t'' ''producer'']])))
       = [UserUpdate \<lparr>UpdateUser_ClusterId = ''c1'', UpdateUser_UserName = ''alice'',
            UpdateUser_Password = ''new'',
            UpdateUser_Permissions = [mkPermission ''t'' ''producer''],
            UpdateUser_UpdateMask = [''password'']\<rparr>]"
  using password_only_update [of Inr "mkUser ''alice'' ''old'' [mkPermission ''t'' ''producer'']"
      "mkUser ''alice'' ''old'' [mkPermission ''t'' ''producer'']"
      "mkUser ''alice'' ''new'' [mkPermission ''t'' ''producer'']"
      "mkUser ''alice'' ''new'' [mkPermission ''t'' ''producer'']"
      samplePrinter "\<lambda>t c. Completes" sampleData]
  by (simp add: mkUser_def sampleData_def)

text \<open>
  Printed by \<open>fmt_Sprintf_v\<close>, two lists of the same length that differ somewhere differ
  in print, as long as no printed element of the one begins with a different printed
  element of the other: the prints agree up to the first position where the lists differ,
  and there one element would have to begin with the other.
\<close>

lemma append_eq_HasPrefix:
  assumes "a @ x = b @ y"
  shows "strings_HasPrefix a b \<or> strings_HasPrefix b a"
proof -
  from assms obtain us where "(a = b @ us \<and> us @ x = y) \<or> (a @ us = b \<and> x = us @ y)"
    unfolding append_eq_append_conv2 by blast
  then show ?thesis
    by (auto simp: strings_HasPrefix_def)
qed

lemma fmt_elements_Cons:
  "ts \<noteq> [] \<Longrightarrow> fmt_elements (s # ts) = s @ '' '' @ fmt_elements ts"
  by (cases ts) simp_all

lemma fmt_elements_order:
  assumes "length ps = length qs" and "ps \<noteq> qs"
    and "\<forall>p \<in> set ps. \<forall>q \<in> set qs. p \<noteq> q \<longrightarrow>
           \<not> strings_HasPrefix (String p) (String q) \<and> \<not> strings_HasPrefix (String q) (String p)"
  shows "fmt_elements (map String ps) @ r \<noteq> fmt_elements (map String qs) @ r'"
  using assms
proof (induction ps qs arbitrary: r r' rule: list_induct2)
  case Nil
  then show ?case by simp
next
  case (Cons p ps q qs)
  show ?case
  proof (cases "p = q")
    case False
    with Cons.prems(2) have apart:
      "\<not> strings_HasPrefix (String p) (String q) \<and> \<not> strings_HasPrefix (String q) (String p)"
      by simp
    show ?thesis
    proof
      assume eq: "fmt_elements (map String (p # ps)) @ r = fmt_elements (map String (q # qs)) @ r'"
      obtain x where x: "fmt_elements (map String (p # ps)) = String p @ x"
        by (cases ps) simp_all
      obtain y where y: "fmt_elements (map String (q # qs)) = String q @ y"
        by (cases qs) simp_all
      from eq x y have "String p @ (x @ r) = String q @ (y @ r')" by simp
      then have "strings_HasPrefix (String p) (String q) \<or> strings_HasPrefix (String q) (String p)"
        by (rule append_eq_HasPrefix)
      with apart show False by blast
    qed
  next
    case True
    with Cons.prems(1) have diff: "ps \<noteq> qs" by simp
    with Cons.hyps have ne: "ps \<noteq> []" "qs \<noteq> []" by auto
    have rest: "\<forall>p \<in> set ps. \<forall>q \<in> set qs. p \<noteq> q \<longrightarrow>
           \<not> strings_HasPrefix (String p) (String q) \<and> \<not> strings_HasPrefix (String q) (String p)"
      using Cons.prems(2) by simp
    from Cons.IH [OF diff rest]
    have "fmt_elements (map String ps) @ r \<noteq> fmt_elements (map String qs) @ r'" .
    with True ne show ?thesis
      by (simp add: fmt_elements_Cons)
  qed
qed

lemma fmt_Sprintf_v_order:
  assumes "mset ps = mset qs" and "ps \<noteq> qs"
    and "\<forall>p \<in> set ps. \<forall>q \<in> set ps. p \<noteq> q \<longrightarrow> \<not> strings_HasPrefix (String p) (String q)"
  shows "fmt_Sprintf_v String ps \<noteq> fmt_Sprintf_v String qs"
proof -
  from assms(1) have len: "length ps = length qs" by (rule mset_eq_length)
  from assms(1) have "set_mset (mset qs) = set_mset (mset ps)" by simp
  then have same: "set qs = set ps" by simp
  have apart: "\<forall>p \<in> set ps. \<forall>q \<in> set qs. p \<noteq> q \<longrightarrow>
           \<not> strings_HasPrefix (String p) (String q) \<and> \<not> strings_HasPrefix (String q) (String p)"
  proof (intro ballI impI conjI)
    fix p q assume "p \<in> set ps" "q \<in> set qs" "p \<noteq> q"
    with assms(3) same show "\<not> strings_HasPrefix (String p) (String q)" by blast
  next
    fix p q assume "p \<in> set ps" "q \<in> set qs" "p \<noteq> q"
    with same have "q \<in> set ps" "p \<in> set ps" "q \<noteq> p" by simp_all
    with assms(3) show "\<not> strings_HasPrefix (String q) (String p)" by blast
  qed
  have "fmt_elements (map String ps) @ '']'' \<noteq> fmt_elements (map String qs) @ '']''"
    using fmt_elements_order [where String = String and r = "'']''" and r' = "'']''", OF len assms(2) apart] .
  then show ?thesis unfolding fmt_Sprintf_v_def by simp
qed

text \<open>
  C5. An old and a new user of the same name and password whose permission lists hold
  the same elements in a different order, compared as Go prints the two slices under
  \<^verbatim>\<open>%v\<close>, where no printed permission of the list begins with another one: the update
  mask is \<^verbatim>\<open>permissions\<close>, and the reconciliation of the pair sends one user update with
  it. The comparison follows the order of the elements, not the set of them.
\<close>

theorem permission_order_update:
  assumes "expandKafkaUser old = Inr u" "expandKafkaUser new = Inr user"
    and "UserSpec_Name user = UserSpec_Name u"
    and "UserSpec_Password user = UserSpec_Password u"
    and "mset (UserSpec_Permissions user) = mset (UserSpec_Permissions u)"
    and "UserSpec_Permissions user \<noteq> UserSpec_Permissions u"
    and "\<forall>p \<in> set (UserSpec_Permissions user). \<forall>q \<in> set (UserSpec_Permissions user).
           p \<noteq> q \<longrightarrow> \<not> strings_HasPrefix (String p) (String q)"
  shows "updateKafkaUsers_paths (fmt_Sprintf_v String) user u = [''permissions'']
    \<and> issued (trace (snd (updateKafkaUsers remote (fmt_Sprintf_v String) expandKafkaUser d [old] [new])))
        = issued (trace d) @
          [UserUpdate \<lparr>UpdateUser_ClusterId = d_Id d,
             UpdateUser_UserName = UserSpec_Name user,
             UpdateUser_Password = UserSpec_Password user,
             UpdateUser_Permissions = UserSpec_Permissions user,
             UpdateUser_UpdateMask = [''permissions'']\<rparr>]"
proof -
  have "fmt_Sprintf_v String (UserSpec_Permissions user) \<noteq> fmt_Sprintf_v String (UserSpec_Permissions u)"
    using assms(5,6,7) by (rule fmt_Sprintf_v_order)
  with assms(4) have p: "updateKafkaUsers_paths (fmt_Sprintf_v String) user u = [''permissions'']"
    by (simp add: updateKafkaUsers_paths_def)
  then have "updateKafkaUsers_paths (fmt_Sprintf_v String) user u \<noteq> []" by simp
  with assms(1-3) have "issued (trace (snd (updateKafkaUsers remote (fmt_Sprintf_v String) expandKafkaUser d [old] [new])))
     = issued (trace d) @
       [UserUpdate \<lparr>UpdateUser_ClusterId = d_Id d,
          UpdateUser_UserName = UserSpec_Name user,
          UpdateUser_Password = UserSpec_Password user,
          UpdateUser_Permissions = UserSpec_Permissions user,
          UpdateUser_UpdateMask = updateKafkaUsers_paths (fmt_Sprintf_v String) user u\<rparr>]"
    by (rule updateKafkaUsers_pair)
  with p show ?thesis by simp
qed

theorem permission_order_update_witness:
  "mset [mkPermission ''b'' ''consumer'', mkPermission ''a'' ''producer'']
     = mset [mkPermission ''a'' ''producer'', mkPermission ''b'' ''consumer'']
   \<and> [mkPermission ''b'' ''consumer'', mkPermission ''a'' ''producer'']
     \<noteq> [mkPermission ''a'' ''producer'', mkPermission ''b'' ''consumer'']
   \<and> \<not> strings_HasPrefix (samplePermissionString (mkPermission ''b'' ''consumer''))
          (samplePermissionString (mkPermission ''a'' ''producer''))
   \<and> \<not> strings_HasPrefix (samplePermissionString (mkPermission ''a'' ''producer''))
          (samplePermissionString (mkPermission ''b'' ''consumer''))
   \<and> issued (trace (snd (updateKafkaUsers (\<lambda>t c. Completes) (fmt_Sprintf_v samplePermissionString)
          Inr sampleData
          [mkUser ''alice'' ''pw'' [mkPermission ''a'' ''producer'', mkPermission ''b'' ''consumer'']]
          [mkUser ''alice'' ''pw'' [mkPermission ''b'' ''consumer'', mkPermission ''a'' ''producer'']])))
       = [UserUpdate \<lparr>UpdateUser_ClusterId = ''c1'', UpdateUser_UserName = ''alice'',
            UpdateUser_Password = ''pw'',
            UpdateUser_Permissions = [mkPermission ''b'' ''consumer'', mkPermission ''a'' ''producer''],
            UpdateUser_UpdateMask = [''permissions'']\<rparr>]"
proof -
  let ?pa = "mkPermission ''a'' ''producer''"
  let ?pb = "mkPermission ''b'' ''consumer''"
  let ?new = "[?pb, ?pa]"
  let ?old = "[?pa, ?pb]"
  have m: "mset ?new = mset ?old" by (simp add: mkPermission_def)
  have n: "?new \<noteq> ?old" by (simp add: mkPermission_def)
  have ba: "\<not> strings_HasPrefix (samplePermissionString ?pb) (samplePermissionString ?pa)"
    by (simp add: strings_HasPrefix_def samplePermissionString_def mkPermission_def)
  have ab: "\<not> strings_HasPrefix (samplePermissionString ?pa) (samplePermissionString ?pb)"
    by (simp add: strings_HasPrefix_def samplePermissionString_def mkPermission_def)
  have free: "\<forall>p \<in> set (UserSpec_Permissions (mkUser ''alice'' ''pw'' ?new)).
      \<forall>q \<in> set (UserSpec_Permissions (mkUser ''alice'' ''pw'' ?new)).
        p \<noteq> q \<longrightarrow> \<not> strings_HasPrefix (samplePermissionString p) (samplePermissionString q)"
    using ab ba by (simp add: mkUser_def)
  have e1: "(Inr :: UserSpec \<Rightarrow> error + UserSpec) (mkUser ''alice'' ''pw'' ?old)
      = Inr (mkUser ''alice'' ''pw'' ?old)" by simp
  have e2: "(Inr :: UserSpec \<Rightarrow> error + UserSpec) (mkUser ''alice'' ''pw'' ?new)
      = Inr (mkUser ''alice'' ''pw'' ?new)" by simp
  have nm: "UserSpec_Name (mkUser ''alice'' ''pw'' ?new) = UserSpec_Name (mkUser ''alice'' ''pw'' ?old)"
    by (simp add: mkUser_def)
  have pw: "UserSpec_Password (mkUser ''alice'' ''pw'' ?new) = UserSpec_Password (mkUser ''alice'' ''pw'' ?old)"
    by (simp add: mkUser_def)
  have ms: "mset (UserSpec_Permissions (mkUser ''alice'' ''pw'' ?new))
      = mset (UserSpec_Permissions (mkUser ''alice'' ''pw'' ?old))"
    using m by (simp add: mkUser_def)
  have ne: "UserSpec_Permissions (mkUser ''alice'' ''pw'' ?new)
      \<noteq> UserSpec_Permissions (mkUser ''alice'' ''pw'' ?old)"
    using n by (simp add: mkUser_def)
  from permission_order_update [where expandKafkaUser = Inr and String = samplePermissionString
      and remote = "\<lambda>t c. Completes" and d = sampleData, OF e1 e2 nm pw ms ne free]
  have "issued (trace (snd (updateKafkaUsers (\<lambda>t c. Completes) (fmt_Sprintf_v samplePermissionString)
          Inr sampleData [mkUser ''alice'' ''pw'' ?old] [mkUser ''alice'' ''pw'' ?new])))
       = [UserUpdate \<lparr>UpdateUser_ClusterId = ''c1'', UpdateUser_UserName = ''alice'',
            UpdateUser_Password = ''pw'', UpdateUser_Permissions = ?new,
            UpdateUser_UpdateMask = [''permissions'']\<rparr>]"
    by (simp add: mkUser_def sampleData_def)
  with m n ba ab show ?thesis by blast
qed

section \<open>Order of the remote operations of a topic reconciliation\<close>

lemma paired_append: "paired tr \<Longrightarrow> paired tr' \<Longrightarrow> paired (tr @ tr')"
  by (induction tr rule: paired.induct) simp_all

lemma paired_sequential_append: "paired tr \<Longrightarrow> sequential tr' \<Longrightarrow> sequential (tr @ tr')"
  by (induction tr rule: paired.induct) simp_all

lemma phaseRun_refl: "trace d' = trace d \<Longrightarrow> phaseRun k d res d'"
  by (simp add: phaseRun_def)

lemma phaseRun_trans:
  assumes "phaseRun k d None d1" "phaseRun k d1 res d2"
  shows "phaseRun k d res d2"
proof -
  from assms(1) obtain tr1 where 1: "trace d1 = trace d @ tr1" "paired tr1"
    "\<forall>e \<in> set tr1. phase (eventCall e) = k"
    by (auto simp: phaseRun_def)
  from assms(2) obtain tr2 where 2: "trace d2 = trace d1 @ tr2" "sequential tr2"
    "res = None \<longrightarrow> paired tr2" "\<forall>e \<in> set tr2. phase (eventCall e) = k"
    by (auto simp: phaseRun_def)
  have "trace d2 = trace d @ (tr1 @ tr2)" using 1 2 by simp
  moreover have "sequential (tr1 @ tr2)" using 1 2 by (simp add: paired_sequential_append)
  moreover have "res = None \<longrightarrow> paired (tr1 @ tr2)" using 1 2 by (simp add: paired_append)
  moreover have "\<forall>e \<in> set (tr1 @ tr2). phase (eventCall e) = k" using 1 2 by auto
  ultimately show ?thesis unfolding phaseRun_def by blast
qed

lemma WrapOperation_Wait_phaseRun:
  "WrapOperation_Wait remote c f g d = (res, d') \<Longrightarrow> phaseRun (phase c) d res d'"
  unfolding phaseRun_def WrapOperation_Wait_def
  by (cases "remote (trace d) c") auto






lemma sorted_constant: "\<forall>x \<in> set xs. f x = (k::nat) \<Longrightarrow> sorted (map f xs)"
  by (induction xs) auto

lemma phaseRun_orderedRun:
  assumes "phaseRun k d res d'"
  shows "orderedRun k d res d'"
proof -
  from assms obtain tr where tr: "trace d' = trace d @ tr" "sequential tr"
    "res = None \<longrightarrow> paired tr" "\<forall>e \<in> set tr. phase (eventCall e) = k"
    by (auto simp: phaseRun_def)
  from tr(4) have "sorted (map (\<lambda>e. phase (eventCall e)) tr)"
    by (rule sorted_constant)
  moreover from tr(4) have "\<forall>e \<in> set tr. phase (eventCall e) \<le> k" by simp
  ultimately show ?thesis using tr(1-3) unfolding orderedRun_def by blast
qed

lemma orderedRun_mono: "orderedRun k d res d' \<Longrightarrow> k \<le> k' \<Longrightarrow> orderedRun k' d res d'"
  unfolding orderedRun_def by (meson order_trans)

lemma orderedRun_then:
  assumes "orderedRun k d None d1" "phaseRun k' d1 res d2" "k \<le> k'"
  shows "orderedRun k' d res d2"
proof -
  from assms(1) obtain tr1 where 1: "trace d1 = trace d @ tr1" "paired tr1"
    "sorted (map (\<lambda>e. phase (eventCall e)) tr1)" "\<forall>e \<in> set tr1. phase (eventCall e) \<le> k"
    by (auto simp: orderedRun_def)
  from assms(2) obtain tr2 where 2: "trace d2 = trace d1 @ tr2" "sequential tr2"
    "res = None \<longrightarrow> paired tr2" "\<forall>e \<in> set tr2. phase (eventCall e) = k'"
    by (auto simp: phaseRun_def)
  have "trace d2 = trace d @ (tr1 @ tr2)" using 1 2 by simp
  moreover have "sequential (tr1 @ tr2)" using 1 2 by (simp add: paired_sequential_append)
  moreover have "res = None \<longrightarrow> paired (tr1 @ tr2)" using 1 2 by (simp add: paired_append)
  moreover have "sorted (map (\<lambda>e. phase (eventCall e)) (tr1 @ tr2))"
    using 1 2 assms(3) by (auto simp: sorted_append intro: sorted_constant)
  moreover have "\<forall>e \<in> set (tr1 @ tr2). phase (eventCall e) \<le> k'"
    using 1 2 assms(3) by auto
  ultimately show ?thesis unfolding orderedRun_def by blast
qed

lemma orderedRun_same_trace:
  "orderedRun k d res d1 \<Longrightarrow> trace d2 = trace d1 \<Longrightarrow> orderedRun k d res d2"
  unfolding orderedRun_def by simp




section \<open>Partial-commit markers\<close>

text \<open>
  A failed sub-phase sets no marker: the callbacks run only after the wait returned
  without error.
\<close>

lemma WrapOperation_Wait_SetPartial:
  "d_SetPartial (snd (WrapOperation_Wait remote c f g d)) = d_SetPartial d"
  by (simp add: WrapOperation_Wait_def split: outcome.splits)

lemma updateKafkaClusterParams_failure_no_marker:
  assumes "updateKafkaClusterParams sem order remote d = (Some err, d')"
  shows "d_SetPartial d' = d_SetPartial d"
proof (cases "kafkaClusterUpdateRequest d")
  case (Inl e)
  with assms show ?thesis by (simp add: updateKafkaClusterParams_def)
next
  case (Inr req)
  obtain updatePath onDone where rng:
    "updateKafkaClusterParams_range d order ([], []) = (updatePath, onDone)"
    by (cases "updateKafkaClusterParams_range d order ([], [])")
  show ?thesis
  proof (cases "updatePath = []")
    case True
    with assms Inr rng show ?thesis by (simp add: updateKafkaClusterParams_def)
  next
    case False
    let ?run = "WrapOperation_Wait remote
        (ClusterUpdate (req\<lparr>UpdateCluster_UpdateMask := updatePath\<rparr>))
        ''error while requesting API to update Kafka Cluster %q: %s''
        ''error while updating Kafka Cluster %q: %s'' d"
    obtain r d1 where step: "?run = (r, d1)" by (cases ?run)
    have "d_SetPartial (snd ?run) = d_SetPartial d" by (rule WrapOperation_Wait_SetPartial)
    with step have keep: "d_SetPartial d1 = d_SetPartial d" by simp
    from assms Inr rng False step have "r = Some err \<and> d' = d1"
      by (cases r) (simp_all add: updateKafkaClusterParams_def)
    with keep show ?thesis by simp
  qed
qed

lemma updateKafkaTopic_failure_no_marker:
  assumes "updateKafkaTopic sem order remote d n t v = (Some err, d')"
  shows "d_SetPartial d' = d_SetPartial d"
proof -
  obtain updatePath onDone where rng:
    "updateKafkaTopic_range d (index t) order ([], []) = (updatePath, onDone)"
    by (cases "updateKafkaTopic_range d (index t) order ([], [])")
  show ?thesis
  proof (cases "updatePath = []")
    case True
    with assms rng show ?thesis by (simp add: updateKafkaTopic_def)
  next
    case False
    let ?run = "WrapOperation_Wait remote
        (TopicUpdate \<lparr>UpdateTopic_ClusterId = d_Id d, UpdateTopic_TopicName = n,
           UpdateTopic_TopicSpec = topic t, UpdateTopic_UpdateMask = updatePath\<rparr>)
        ''error while requesting API to update topic in Kafka Cluster %q: %s''
        ''error while updating topic in Kafka Cluster %q: %s'' d"
    obtain r d1 where step: "?run = (r, d1)" by (cases ?run)
    have "d_SetPartial (snd ?run) = d_SetPartial d" by (rule WrapOperation_Wait_SetPartial)
    with step have keep: "d_SetPartial d1 = d_SetPartial d" by simp
    from assms rng False step have "r = Some err \<and> d' = d1"
      by (cases r) (simp_all add: updateKafkaTopic_def)
    with keep show ?thesis by simp
  qed
qed

text \<open>
  On success \<^verbatim>\<open>updateKafkaClusterParams\<close> sets one marker per changed field of the walk: the
  changed field itself with one variable per iteration, the key of the last entry walked
  with one shared variable.
\<close>

lemma updateKafkaClusterParams_success_markers:
  assumes "updateKafkaClusterParams sem order remote d = (None, d')"
  shows "d_SetPartial d' = d_SetPartial d @
     (case sem of
        PerIteration \<Rightarrow> map fst (filter (\<lambda>(field, path). d_HasChange d field) order)
      | SharedVariable \<Rightarrow>
          map (\<lambda>captured. fst (last order)) (filter (\<lambda>(field, path). d_HasChange d field) order))"
proof (cases "kafkaClusterUpdateRequest d")
  case (Inl e)
  with assms show ?thesis by (simp add: updateKafkaClusterParams_def)
next
  case (Inr req)
  let ?changed = "filter (\<lambda>(field, path). d_HasChange d field) order"
  let ?updatePath = "map (\<lambda>(field, path). strings_Replace path ''{version}'' (getSuffixVerion (d_version d))) ?changed"
  have rng: "updateKafkaClusterParams_range d order ([], []) = (?updatePath, map fst ?changed)"
    by (simp add: params_range_acc)
  show ?thesis
  proof (cases "?changed = []")
    case True
    with assms Inr rng show ?thesis
      by (cases sem) (simp_all add: updateKafkaClusterParams_def)
  next
    case False
    let ?run = "WrapOperation_Wait remote
        (ClusterUpdate (req\<lparr>UpdateCluster_UpdateMask := ?updatePath\<rparr>))
        ''error while requesting API to update Kafka Cluster %q: %s''
        ''error while updating Kafka Cluster %q: %s'' d"
    obtain r d1 where step: "?run = (r, d1)" by (cases ?run)
    have "d_SetPartial (snd ?run) = d_SetPartial d" by (rule WrapOperation_Wait_SetPartial)
    with step have keep: "d_SetPartial d1 = d_SetPartial d" by simp
    from assms Inr rng False step have "r = None \<and> d' = runOnDone sem order (map fst ?changed) d1"
      by (cases r) (simp_all add: updateKafkaClusterParams_def)
    with keep show ?thesis
      by (cases sem) (simp_all add: runOnDone_def)
  qed
qed

text \<open>
  Whatever the order of the walk and the loop-variable semantics, every marker that
  \<^verbatim>\<open>updateKafkaTopic\<close> sets is a key of the table it walks: the format with \<^verbatim>\<open>%d\<close>, not
  the key that \<^verbatim>\<open>Sprintf\<close> made of it.
\<close>

lemma topic_range_acc:
  "updateKafkaTopic_range d idx order (updatePath, onDone)
   = (updatePath @ map (\<lambda>(field, path). strings_Replace path ''{version}'' (getSuffixVerion (d_version d)))
                     (filter (\<lambda>(field, path). d_HasChange d (Sprintf_d field idx)) order),
      onDone @ map fst (filter (\<lambda>(field, path). d_HasChange d (Sprintf_d field idx)) order))"
  by (induction order arbitrary: updatePath onDone) (auto simp: Let_def)

lemma updateKafkaTopic_markers_are_table_keys:
  assumes "updateKafkaTopic sem order remote d n t v = (res, d')"
  shows "set (d_SetPartial d') \<subseteq> set (d_SetPartial d) \<union> fst ` set order"
proof -
  let ?changed = "filter (\<lambda>(field, path). d_HasChange d (Sprintf_d field (index t))) order"
  let ?updatePath = "map (\<lambda>(field, path). strings_Replace path ''{version}'' (getSuffixVerion (d_version d))) ?changed"
  have rng: "updateKafkaTopic_range d (index t) order ([], []) = (?updatePath, map fst ?changed)"
    by (simp add: topic_range_acc)
  show ?thesis
  proof (cases "?changed = []")
    case True
    with assms rng show ?thesis by (simp add: updateKafkaTopic_def)
  next
    case False
    then have ne: "order \<noteq> []" by auto
    let ?run = "WrapOperation_Wait remote
        (TopicUpdate \<lparr>UpdateTopic_ClusterId = d_Id d, UpdateTopic_TopicName = n,
           UpdateTopic_TopicSpec = topic t, UpdateTopic_UpdateMask = ?updatePath\<rparr>)
        ''error while requesting API to update topic in Kafka Cluster %q: %s''
        ''error while updating topic in Kafka Cluster %q: %s'' d"
    obtain r d1 where step: "?run = (r, d1)" by (cases ?run)
    have "d_SetPartial (snd ?run) = d_SetPartial d" by (rule WrapOperation_Wait_SetPartial)
    with step have keep: "d_SetPartial d1 = d_SetPartial d" by simp
    have keys: "set (map fst ?changed) \<subseteq> fst ` set order" by auto
    have lastkey: "fst (last order) \<in> fst ` set order" using ne by simp
    show ?thesis
    proof (cases r)
      case (Some err)
      with assms rng False step have "d' = d1" by (simp add: updateKafkaTopic_def)
      with keep show ?thesis by simp
    next
      case None
      with assms rng False step have "d' = runOnDone sem order (map fst ?changed) d1"
        by (simp add: updateKafkaTopic_def)
      with keep keys lastkey show ?thesis
        by (cases sem) (auto simp: runOnDone_def)
    qed
  qed
qed

text \<open>
  C9 at a concrete input. The declared field \<^verbatim>\<open>topic.0.partitions\<close> is the only changed
  one and the remote update succeeds. The marker set by \<^verbatim>\<open>updateKafkaTopic\<close> is the table
  key \<^verbatim>\<open>topic.%d.partitions\<close> (with one variable per iteration) or the key of the last
  entry walked (with one shared variable), not the declared field. With one shared
  variable \<^verbatim>\<open>updateKafkaClusterParams\<close> marks the last entry walked as well, here for a
  changed \<^verbatim>\<open>name\<close>.
\<close>

theorem updateKafkaTopic_marker_keys:
  "d_SetPartial (snd (updateKafkaTopic PerIteration mdbKafkaUpdateTopicFieldsMap (\<lambda>t c. Completes)
       (sampleData\<lparr>d_HasChange := (\<lambda>f. f = ''topic.0.partitions'')\<rparr>)
       ''keep'' \<lparr>index = 0, topic = mkSpec ''keep''\<rparr> ''2.8''))
     = [''topic.%d.partitions'']
   \<and> d_SetPartial (snd (updateKafkaTopic SharedVariable mdbKafkaUpdateTopicFieldsMap (\<lambda>t c. Completes)
       (sampleData\<lparr>d_HasChange := (\<lambda>f. f = ''topic.0.partitions'')\<rparr>)
       ''keep'' \<lparr>index = 0, topic = mkSpec ''keep''\<rparr> ''2.8''))
     = [''topic.%d.topic_config.0.preallocate'']
   \<and> d_SetPartial (snd (updateKafkaClusterParams SharedVariable mdbKafkaUpdateFieldsMap
       (\<lambda>t c. Completes) (sampleData\<lparr>d_HasChange := (\<lambda>f. f = ''name'')\<rparr>)))
     = [''config.0.zookeeper.0.resources.0.disk_size'']"
  by (simp add: updateKafkaTopic_def updateKafkaClusterParams_def kafkaClusterUpdateRequest_def
      sampleData_def WrapOperation_Wait_def runOnDone_def
      mdbKafkaUpdateTopicFieldsMap_def mdbKafkaUpdateFieldsMap_def Sprintf_d_def strings_Replace_def
      strconv_digits.simps getSuffixVerion_def)

section \<open>The topic differ partitions the names\<close>

lemma sortKafkaTopics_names:
  "set (map Topic_Name (sortKafkaTopics topics specs)) = set (map Topic_Name topics)"
proof -
  have "mset (map Topic_Name (sortKafkaTopics topics specs)) = mset (map Topic_Name topics)"
    by (simp add: sortKafkaTopics_def outer_mset)
  then show ?thesis by (metis set_mset_mset)
qed

lemma sortKafkaTopics_set: "set (sortKafkaTopics topics specs) = set topics"
proof -
  have "mset (sortKafkaTopics topics specs) = mset topics"
    by (simp add: sortKafkaTopics_def outer_mset)
  then show ?thesis by (metis set_mset_mset)
qed

text \<open>
  C1. For every remote and every declared topic list, with the remote list reordered by
  \<^verbatim>\<open>sortKafkaTopics\<close> first as \<^verbatim>\<open>updateKafkaClusterTopics\<close> does: the names to delete, the
  names to add and the modify candidates are pairwise disjoint, and together they are the
  names of the two lists.
\<close>

theorem topic_differ_partitions:
  "set (fst (kafkaTopicsDiff (sortKafkaTopics remote target) target))
     \<inter> set (map TopicSpec_Name (snd (kafkaTopicsDiff (sortKafkaTopics remote target) target))) = {}
   \<and> set (fst (kafkaTopicsDiff (sortKafkaTopics remote target) target))
     \<inter> set (kafkaTopicsModifyCandidates (sortKafkaTopics remote target) target) = {}
   \<and> set (map TopicSpec_Name (snd (kafkaTopicsDiff (sortKafkaTopics remote target) target)))
     \<inter> set (kafkaTopicsModifyCandidates (sortKafkaTopics remote target) target) = {}
   \<and> set (fst (kafkaTopicsDiff (sortKafkaTopics remote target) target))
     \<union> set (map TopicSpec_Name (snd (kafkaTopicsDiff (sortKafkaTopics remote target) target)))
     \<union> set (kafkaTopicsModifyCandidates (sortKafkaTopics remote target) target)
     = set (map Topic_Name remote) \<union> set (map TopicSpec_Name target)"
proof -
  let ?cur = "sortKafkaTopics remote target"
  have names: "set (map Topic_Name ?cur) = set (map Topic_Name remote)"
    by (rule sortKafkaTopics_names)
  have del: "set (fst (kafkaTopicsDiff ?cur target))
      = set (map Topic_Name remote) - set (map TopicSpec_Name target)"
    by (auto simp: kafkaTopicsDiff_def sortKafkaTopics_set)
  have add: "set (map TopicSpec_Name (snd (kafkaTopicsDiff ?cur target)))
      = set (map TopicSpec_Name target) - set (map Topic_Name remote)"
    using names by (auto simp: kafkaTopicsDiff_def)
  have cand: "set (kafkaTopicsModifyCandidates ?cur target)
      = set (map TopicSpec_Name target) \<inter> set (map Topic_Name remote)"
    using names by (auto simp: kafkaTopicsModifyCandidates_def)
  show ?thesis unfolding del add cand by blast
qed

section \<open>Order of the remote operations of a user reconciliation\<close>

text \<open>\<^verbatim>\<open>updateKafkaClusterUsers\<close> has the same three phases, in the same order.\<close>

lemma user_delete_phaseRun:
  "updateKafkaClusterUsers_delete remote toDelete d = (res, d') \<Longrightarrow> phaseRun 0 d res d'"
proof (induction toDelete arbitrary: d)
  case Nil
  then show ?case by (simp add: phaseRun_refl)
next
  case (Cons user toDelete)
  obtain r d1 where step: "deleteKafkaUser remote d user = (r, d1)"
    by (cases "deleteKafkaUser remote d user")
  then have run1: "phaseRun 0 d r d1"
    using WrapOperation_Wait_phaseRun [of remote "UserDelete (d_Id d) user"]
    by (simp add: deleteKafkaUser_def)
  show ?case
  proof (cases r)
    case None
    with Cons.prems step have "updateKafkaClusterUsers_delete remote toDelete d1 = (res, d')"
      by simp
    then have "phaseRun 0 d1 res d'" by (rule Cons.IH)
    with run1 None show ?thesis by (auto intro: phaseRun_trans)
  next
    case (Some err)
    with Cons.prems step run1 show ?thesis by auto
  qed
qed

lemma user_add_phaseRun:
  "updateKafkaClusterUsers_add remote toAdd d = (res, d') \<Longrightarrow> phaseRun 1 d res d'"
proof (induction toAdd arbitrary: d)
  case Nil
  then show ?case by (simp add: phaseRun_refl)
next
  case (Cons user toAdd)
  obtain r d1 where step: "createKafkaUser remote d user = (r, d1)"
    by (cases "createKafkaUser remote d user")
  then have run1: "phaseRun 1 d r d1"
    using WrapOperation_Wait_phaseRun [of remote "UserCreate (d_Id d) user"]
    by (simp add: createKafkaUser_def)
  show ?case
  proof (cases r)
    case None
    with Cons.prems step have "updateKafkaClusterUsers_add remote toAdd d1 = (res, d')"
      by simp
    then have "phaseRun 1 d1 res d'" by (rule Cons.IH)
    with run1 None show ?thesis by (auto intro: phaseRun_trans)
  next
    case (Some err)
    with Cons.prems step run1 show ?thesis by auto
  qed
qed

lemma user_new_phaseRun:
  "updateKafkaUsers_new remote Sprintf_v expandKafkaUser m newSpecs d = (res, d')
   \<Longrightarrow> phaseRun 2 d res d'"
proof (induction newSpecs arbitrary: d)
  case Nil
  then show ?case by (simp add: phaseRun_refl)
next
  case (Cons spec newSpecs)
  show ?case
  proof (cases "expandKafkaUser spec")
    case (Inl err)
    with Cons.prems show ?thesis by (simp add: phaseRun_refl)
  next
    case (Inr user)
    show ?thesis
    proof (cases "m (UserSpec_Name user)")
      case None
      with Cons.prems Inr have
        "updateKafkaUsers_new remote Sprintf_v expandKafkaUser m newSpecs d = (res, d')"
        by simp
      then show ?thesis by (rule Cons.IH)
    next
      case (Some u)
      show ?thesis
      proof (cases "updateKafkaUsers_paths Sprintf_v user u = []")
        case True
        with Cons.prems Inr Some have
          "updateKafkaUsers_new remote Sprintf_v expandKafkaUser m newSpecs d = (res, d')"
          by simp
        then show ?thesis by (rule Cons.IH)
      next
        case False
        let ?req = "\<lparr>UpdateUser_ClusterId = d_Id d,
            UpdateUser_UserName = UserSpec_Name user,
            UpdateUser_Password = UserSpec_Password user,
            UpdateUser_Permissions = UserSpec_Permissions user,
            UpdateUser_UpdateMask = updateKafkaUsers_paths Sprintf_v user u\<rparr>"
        obtain r d1 where step: "updateKafkaUser remote d ?req = (r, d1)"
          by (cases "updateKafkaUser remote d ?req")
        then have run1: "phaseRun 2 d r d1"
          using WrapOperation_Wait_phaseRun [of remote "UserUpdate ?req"]
          by (simp add: updateKafkaUser_def)
        show ?thesis
        proof (cases r)
          case None
          with Cons.prems Inr Some False step have
            "updateKafkaUsers_new remote Sprintf_v expandKafkaUser m newSpecs d1 = (res, d')"
            by (simp add: Let_def)
          then have "phaseRun 2 d1 res d'" by (rule Cons.IH)
          with run1 None show ?thesis by (auto intro: phaseRun_trans)
        next
          case (Some err)
          with Cons.prems Inr \<open>m (UserSpec_Name user) = Some u\<close> False step
          have "res = Some err" "d' = d1" by (simp_all add: Let_def)
          with run1 Some show ?thesis by simp
        qed
      qed
    qed
  qed
qed

lemma updateKafkaUsers_phaseRun:
  assumes "updateKafkaUsers remote Sprintf_v expandKafkaUser d oldSpecs newSpecs = (res, d')"
  shows "phaseRun 2 d res d'"
proof (cases "updateKafkaUsers_old expandKafkaUser oldSpecs Map.empty")
  case (Inl err)
  with assms show ?thesis by (simp add: updateKafkaUsers_def phaseRun_refl)
next
  case (Inr m)
  with assms have "updateKafkaUsers_new remote Sprintf_v expandKafkaUser m newSpecs d = (res, d')"
    by (simp add: updateKafkaUsers_def)
  then show ?thesis by (rule user_new_phaseRun)
qed

lemma users_listed_orderedRun:
  assumes "updateKafkaClusterUsers_listed remote h currUsers d = (res, d')"
  shows "orderedRun 2 d res d'"
proof (cases "h_expandKafkaUsers h")
  case (Inl err)
  with assms have "d' = d" by (simp add: updateKafkaClusterUsers_listed_def)
  then show ?thesis by (simp add: orderedRun_def)
next
  case (Inr targetUsers)
  obtain toDelete toAdd where diff: "h_kafkaUsersDiff h currUsers targetUsers = (toDelete, toAdd)"
    by (cases "h_kafkaUsersDiff h currUsers targetUsers")
  obtain r1 d1 where del: "updateKafkaClusterUsers_delete remote toDelete d = (r1, d1)"
    by (cases "updateKafkaClusterUsers_delete remote toDelete d")
  then have run1: "orderedRun 0 d r1 d1"
    by (intro phaseRun_orderedRun user_delete_phaseRun)
  show ?thesis
  proof (cases r1)
    case (Some err)
    with assms Inr diff del have "res = Some err" "d' = d1"
      by (simp_all add: updateKafkaClusterUsers_listed_def)
    with run1 Some show ?thesis by (auto intro: orderedRun_mono [of 0 _ _ _ 2])
  next
    case del_ok: None
    obtain r2 d2 where add: "updateKafkaClusterUsers_add remote toAdd d1 = (r2, d2)"
      by (cases "updateKafkaClusterUsers_add remote toAdd d1")
    then have "phaseRun 1 d1 r2 d2" by (rule user_add_phaseRun)
    with run1 del_ok have run2: "orderedRun 1 d r2 d2"
      by (auto intro: orderedRun_then)
    show ?thesis
    proof (cases r2)
      case (Some err)
      with assms Inr diff del del_ok add have "res = Some err" "d' = d2"
        by (simp_all add: updateKafkaClusterUsers_listed_def)
      with run2 Some show ?thesis by (auto intro: orderedRun_mono [of 1 _ _ _ 2])
    next
      case add_ok: None
      with run2 have upto: "orderedRun 1 d None d2" by simp
      obtain r3 d3 where upd: "updateKafkaUsers remote (h_Sprintf_v h) (h_expandKafkaUser h) d2
          (fst (h_GetChange_user h)) (snd (h_GetChange_user h)) = (r3, d3)"
        by (cases "updateKafkaUsers remote (h_Sprintf_v h) (h_expandKafkaUser h) d2
          (fst (h_GetChange_user h)) (snd (h_GetChange_user h))")
      then have "phaseRun 2 d2 r3 d3" by (rule updateKafkaUsers_phaseRun)
      with upto have run3: "orderedRun 2 d r3 d3"
        by (auto intro: orderedRun_then)
      show ?thesis
      proof (cases r3)
        case (Some err)
        with assms Inr diff del del_ok add add_ok upd have "res = Some err" "d' = d3"
          by (simp_all add: updateKafkaClusterUsers_listed_def)
        with run3 Some show ?thesis by simp
      next
        case None
        with assms Inr diff del del_ok add add_ok upd
        have "res = None" "d' = d3\<lparr>d_SetPartial := d_SetPartial d3 @ [''user'']\<rparr>"
          by (simp_all add: updateKafkaClusterUsers_listed_def)
        with run3 None show ?thesis
          by (auto intro: orderedRun_same_trace)
      qed
    qed
  qed
qed

lemma users_reconciled_in_phases:
  assumes "listKafkaUsers (h_usersPage h) (d_Id d) = Some listed"
  shows "\<exists>res d' tr. updateKafkaClusterUsers remote h d = Some (res, d')
        \<and> trace d' = trace d @ tr \<and> sequential tr \<and> (res = None \<longrightarrow> paired tr)
        \<and> sorted (map (\<lambda>e. phase (eventCall e)) tr)"
proof (cases listed)
  case (Inl err)
  with assms have "updateKafkaClusterUsers remote h d = Some (Some err, d)"
    by (simp add: updateKafkaClusterUsers_def)
  moreover have "trace d = trace d @ []" by simp
  ultimately show ?thesis by (intro exI [of _ "Some err"] exI [of _ d] exI [of _ "[]"]) simp
next
  case (Inr currUsers)
  obtain res d' where run: "updateKafkaClusterUsers_listed remote h currUsers d = (res, d')"
    by (cases "updateKafkaClusterUsers_listed remote h currUsers d")
  with assms Inr have "updateKafkaClusterUsers remote h d = Some (res, d')"
    by (simp add: updateKafkaClusterUsers_def)
  moreover from run have "orderedRun 2 d res d'" by (rule users_listed_orderedRun)
  ultimately show ?thesis unfolding orderedRun_def by blast
qed

end
